theory Spec2Isabelle
  imports Complex_Main
begin

section \<open>Floating-point values\<close>

text \<open>
  The module \<^verbatim>\<open>pymbar/confidenceintervals.py\<close> computes on numpy's 64-bit floats.
  A float is embedded as a real number or as NaN. Rounding, the two infinities and the
  sign of zero are left out: an operation that numpy answers with an infinity
  (a division of a non-zero number by zero, the logarithm of zero) is answered with
  \<open>NaN\<close> here. NaN spreads through every arithmetic operation and makes every
  comparison false, as in IEEE 754.
\<close>

datatype pyfloat = Fl real | NaN

fun isnan :: "pyfloat \<Rightarrow> bool" where
  "isnan NaN = True"
| "isnan (Fl x) = False"

fun lift1 :: "(real \<Rightarrow> real) \<Rightarrow> pyfloat \<Rightarrow> pyfloat" where
  "lift1 f (Fl x) = Fl (f x)"
| "lift1 f NaN = NaN"

fun lift2 :: "(real \<Rightarrow> real \<Rightarrow> real) \<Rightarrow> pyfloat \<Rightarrow> pyfloat \<Rightarrow> pyfloat" where
  "lift2 f (Fl x) (Fl y) = Fl (f x y)"
| "lift2 f (Fl x) NaN = NaN"
| "lift2 f NaN y = NaN"

definition fadd :: "pyfloat \<Rightarrow> pyfloat \<Rightarrow> pyfloat" where
  "fadd = lift2 (+)"

definition fsub :: "pyfloat \<Rightarrow> pyfloat \<Rightarrow> pyfloat" where
  "fsub = lift2 (-)"

definition fmul :: "pyfloat \<Rightarrow> pyfloat \<Rightarrow> pyfloat" where
  "fmul = lift2 (*)"

fun fdiv :: "pyfloat \<Rightarrow> pyfloat \<Rightarrow> pyfloat" where
  "fdiv (Fl x) (Fl y) = (if y = 0 then NaN else Fl (x / y))"
| "fdiv (Fl x) NaN = NaN"
| "fdiv NaN y = NaN"

fun fsqrt :: "pyfloat \<Rightarrow> pyfloat" where
  "fsqrt (Fl x) = (if x < 0 then NaN else Fl (sqrt x))"
| "fsqrt NaN = NaN"

fun flog :: "pyfloat \<Rightarrow> pyfloat" where
  "flog (Fl x) = (if 0 < x then Fl (ln x) else NaN)"
| "flog NaN = NaN"

definition fabs :: "pyfloat \<Rightarrow> pyfloat" where
  "fabs = lift1 abs"

fun fle :: "pyfloat \<Rightarrow> pyfloat \<Rightarrow> bool" where
  "fle (Fl x) (Fl y) = (x \<le> y)"
| "fle (Fl x) NaN = False"
| "fle NaN y = False"

text \<open>The comparison \<^verbatim>\<open>sigma == 0\<close>.\<close>

fun feq0 :: "pyfloat \<Rightarrow> bool" where
  "feq0 (Fl x) = (x = 0)"
| "feq0 NaN = False"

text \<open>\<^verbatim>\<open>np.sort\<close> on one axis: ascending, every NaN after the numbers.\<close>

fun finite_part :: "pyfloat list \<Rightarrow> real list" where
  "finite_part [] = []"
| "finite_part (Fl x # xs) = x # finite_part xs"
| "finite_part (NaN # xs) = finite_part xs"

definition fsort :: "pyfloat list \<Rightarrow> pyfloat list" where
  "fsort xs = map Fl (sort (finite_part xs)) @ filter isnan xs"

section \<open>Arrays and replicates\<close>

text \<open>
  A replicate's quantity is a scalar, a vector over the states, or a matrix over the
  pairs of states (a list of rows, all of one length in a numpy array). An array of
  three or more axes keeps its first three extents, the further extents and its
  entries in row-major order.
\<close>

datatype ndarray =
    Scalar pyfloat
  | Vec "pyfloat list"
  | Mat "pyfloat list list"
  | Higher nat nat nat "nat list" "pyfloat list"

text \<open>\<^verbatim>\<open>len(numpy.shape(a))\<close>.\<close>

fun ndim :: "ndarray \<Rightarrow> nat" where
  "ndim (Scalar x) = 0"
| "ndim (Vec xs) = 1"
| "ndim (Mat rows) = 2"
| "ndim (Higher a b c r xs) = 3 + length r"

definition ncols :: "pyfloat list list \<Rightarrow> nat" where
  "ncols rows = (case rows of [] \<Rightarrow> 0 | r # rs \<Rightarrow> length r)"

fun map_nd :: "(pyfloat \<Rightarrow> pyfloat) \<Rightarrow> ndarray \<Rightarrow> ndarray" where
  "map_nd f (Scalar x) = Scalar (f x)"
| "map_nd f (Vec xs) = Vec (map f xs)"
| "map_nd f (Mat rows) = Mat (map (map f) rows)"
| "map_nd f (Higher a b c r xs) = Higher a b c r (map f xs)"

fun same_shape :: "ndarray \<Rightarrow> ndarray \<Rightarrow> bool" where
  "same_shape (Scalar x) (Scalar y) = True"
| "same_shape (Vec xs) (Vec ys) = (length xs = length ys)"
| "same_shape (Mat xs) (Mat ys) = (map length xs = map length ys)"
| "same_shape (Higher a b c r xs) (Higher a' b' c' r' ys) =
     (a = a' \<and> b = b' \<and> c = c' \<and> r = r' \<and> length xs = length ys)"
| "same_shape x y = False"

fun map2_nd :: "(pyfloat \<Rightarrow> pyfloat \<Rightarrow> pyfloat) \<Rightarrow> ndarray \<Rightarrow> ndarray \<Rightarrow> ndarray" where
  "map2_nd f (Scalar x) (Scalar y) = Scalar (f x y)"
| "map2_nd f (Vec xs) (Vec ys) = Vec (map2 f xs ys)"
| "map2_nd f (Mat xs) (Mat ys) = Mat (map2 (map2 f) xs ys)"
| "map2_nd f (Higher a b c r xs) (Higher a' b' c' r' ys) = Higher a b c r (map2 f xs ys)"
| "map2_nd f x y = x"

text \<open>
  The exceptions the module can end with. \<open>StrRaise s\<close> is the statement
  \<^verbatim>\<open>raise "isnan"\<close>, which raises a string (from Python 2.6 on the interpreter
  turns that statement into a TypeError; either way the call ends there).
\<close>

datatype pyerror =
    NameError string
  | UnboundLocalError string
  | IndexError
  | ValueError
  | TypeError
  | StrRaise string

text \<open>
  An element-wise operation on two arrays. The embedding is exact on arrays of one
  shape, which is what the data model promises of a ReplicateSet; where the shapes
  differ numpy either broadcasts or raises ValueError, and the embedding reports
  ValueError in both cases.
\<close>

definition binop_nd ::
  "(pyfloat \<Rightarrow> pyfloat \<Rightarrow> pyfloat) \<Rightarrow> ndarray \<Rightarrow> ndarray \<Rightarrow> pyerror + ndarray" where
  "binop_nd f a b = (if same_shape a b then Inr (map2_nd f a b) else Inl ValueError)"

text \<open>A replicate is a dictionary with the keys \<^verbatim>\<open>estimated\<close>, \<^verbatim>\<open>error\<close> and \<^verbatim>\<open>destimated\<close>.\<close>

record replicate =
  estimated :: ndarray
  error :: ndarray
  destimated :: ndarray

fun collect :: "('e + 'a) list \<Rightarrow> 'e + 'a list" where
  "collect [] = Inr []"
| "collect (x # xs) =
     (case x of
        Inl e \<Rightarrow> Inl e
      | Inr v \<Rightarrow> (case collect xs of Inl e \<Rightarrow> Inl e | Inr vs \<Rightarrow> Inr (v # vs)))"

section \<open>Names\<close>

text \<open>
  A function body reads a global name from the module's dictionary, then from the
  builtins, and raises NameError when neither binds it. The module's dictionary holds
  what its top-level statements bind: \<^verbatim>\<open>import numpy\<close>, the three
  \<^verbatim>\<open>import scipy...\<close> lines (each binds \<^verbatim>\<open>scipy\<close>) and the four \<^verbatim>\<open>def\<close>s.
\<close>

type_synonym namespace = "string list"

definition module_globals :: namespace where
  "module_globals =
     [''numpy'', ''scipy'', ''OrderReplicates'', ''AndersonDarling'', ''QQPlot'',
      ''generateConfidenceIntervals'']"

definition py_builtins :: namespace where
  "py_builtins = [''len'', ''enumerate'', ''range'', ''abs'', ''dict'']"

definition load_global :: "namespace \<Rightarrow> string \<Rightarrow> pyerror + unit" where
  "load_global g name =
     (if name \<in> set g \<or> name \<in> set py_builtins then Inr () else Inl (NameError name))"

section \<open>Library functions\<close>

text \<open>
  SciPy is not part of the repository. Its three functions that the module calls are
  given by their mathematical definitions: \<^verbatim>\<open>scipy.special.erf\<close> by its power series,
  \<^verbatim>\<open>scipy.stats.norm.cdf\<close> through it, and \<^verbatim>\<open>scipy.stats.beta.ppf\<close> as the inverse of
  the regularised incomplete beta function, written as a binomial tail sum because the
  module only passes shape parameters that are whole numbers (one plus a count).
\<close>

definition erf :: "real \<Rightarrow> real" where
  "erf x = 2 / sqrt pi * (\<Sum>n. (- 1) ^ n * x ^ (2 * n + 1) / (fact n * real (2 * n + 1)))"

definition norm_cdf :: "real \<Rightarrow> real" where
  "norm_cdf x = (1 + erf (x / sqrt 2)) / 2"

definition beta_cdf :: "nat \<Rightarrow> nat \<Rightarrow> real \<Rightarrow> real" where
  "beta_cdf a b x =
     (\<Sum>j = a..<a + b. real ((a + b - 1) choose j) * x ^ j * (1 - x) ^ (a + b - 1 - j))"

definition beta_ppf :: "real \<Rightarrow> real \<Rightarrow> real \<Rightarrow> real" where
  "beta_ppf q a b = (THE x. 0 \<le> x \<and> x \<le> 1 \<and> beta_cdf (nat \<lfloor>a\<rfloor>) (nat \<lfloor>b\<rfloor>) x = q)"

section \<open>OrderReplicates\<close>

text \<open>
  \<^verbatim>\<open>sigma += sigmacorr\<close> with \<^verbatim>\<open>sigmacorr = (sigma == 0)\<close>: a true entry of the mask
  counts as 1, a false one as 0. On an array the statement writes into replicate 0's
  \<^verbatim>\<open>destimated\<close>, and \<^verbatim>\<open>sigma -= sigmacorr\<close> before the return writes the old values
  back (after an exception in between they stay changed); the embedding works on a
  copy and leaves the replicates as they are.
\<close>

definition add_mask :: "ndarray \<Rightarrow> ndarray" where
  "add_mask sigma = map_nd (\<lambda>s. fadd s (if feq0 s then Fl 1 else Fl 0)) sigma"

fun scalar_val :: "ndarray \<Rightarrow> pyfloat" where
  "scalar_val (Scalar x) = x"
| "scalar_val a = NaN"

fun vec_val :: "ndarray \<Rightarrow> pyfloat list" where
  "vec_val (Vec xs) = xs"
| "vec_val a = []"

fun mat_val :: "ndarray \<Rightarrow> pyfloat list list" where
  "mat_val (Mat rows) = rows"
| "mat_val a = []"

text \<open>\<^verbatim>\<open>yiarray[:,i]\<close> and \<^verbatim>\<open>yiarray[:,i,j]\<close>: one coordinate across the replicates.\<close>

definition column1 :: "ndarray list \<Rightarrow> nat \<Rightarrow> pyfloat list" where
  "column1 yi i = map (\<lambda>y. vec_val y ! i) yi"

definition column2 :: "ndarray list \<Rightarrow> nat \<Rightarrow> nat \<Rightarrow> pyfloat list" where
  "column2 yi i j = map (\<lambda>y. mat_val y ! i ! j) yi"

text \<open>
  Lines 47 to 56: \<^verbatim>\<open>sortedyi\<close> starts as zeros of the shape of \<^verbatim>\<open>yiarray\<close> and
  receives the sorted column of every coordinate the loops reach: the only one for a
  scalar, \<^verbatim>\<open>i < K\<close> for a vector, \<^verbatim>\<open>i < K\<close> and \<^verbatim>\<open>j < K\<close> for a matrix, none for
  three axes or more. A loop index beyond the array raises IndexError. The result is
  the list of the slices \<^verbatim>\<open>sortedyi[0]\<close>, ..., \<^verbatim>\<open>sortedyi[N-1]\<close>.
\<close>

definition sort_slices :: "ndarray \<Rightarrow> ndarray list \<Rightarrow> int \<Rightarrow> pyerror + ndarray list" where
  "sort_slices sigma yi K =
     (case sigma of
        Scalar s \<Rightarrow> Inr (map Scalar (fsort (map scalar_val yi)))
      | Vec ss \<Rightarrow>
          if int (length ss) < K then Inl IndexError
          else Inr (map (\<lambda>n. Vec (map (\<lambda>i. if int i < K then fsort (column1 yi i) ! n else Fl 0)
                                  [0..<length ss]))
                     [0..<length yi])
      | Mat rows \<Rightarrow>
          if int (length rows) < K \<or> int (ncols rows) < K then Inl IndexError
          else Inr (map (\<lambda>n. Mat (map (\<lambda>i. map (\<lambda>j. if int i < K \<and> int j < K
                                                    then fsort (column2 yi i j) ! n else Fl 0)
                                            [0..<ncols rows])
                                  [0..<length rows]))
                     [0..<length yi])
      | Higher a b c r xs \<Rightarrow> Inr (map (\<lambda>n. Higher a b c r (map (\<lambda>x. Fl 0) xs)) [0..<length yi]))"

text \<open>
  The function itself. Line 36, its first statement, evaluates the name \<^verbatim>\<open>np\<close> before
  anything else, the argument \<^verbatim>\<open>replicates[0]\<close> included.
\<close>

definition OrderReplicates :: "namespace \<Rightarrow> replicate list \<Rightarrow> int \<Rightarrow> pyerror + ndarray list" where
  "OrderReplicates g replicates K =
     (case load_global g ''np'' of
        Inl e \<Rightarrow> Inl e
      | Inr u \<Rightarrow>
          (case replicates of
             [] \<Rightarrow> Inl IndexError
           | r0 # rs \<Rightarrow>
               (let sigma = add_mask (destimated r0) in
                case collect (map (\<lambda>r. binop_nd fdiv (error r) sigma) replicates) of
                  Inl e \<Rightarrow> Inl e
                | Inr yi \<Rightarrow> sort_slices sigma yi K)))"

section \<open>AndersonDarling\<close>

text \<open>Line 98, for one entry \<open>y\<close> of the slice \<^verbatim>\<open>sortedyi[i]\<close>; \<open>i\<close> is the loop index of \<^verbatim>\<open>range(N)\<close>.\<close>

definition ad_term :: "nat \<Rightarrow> nat \<Rightarrow> pyfloat \<Rightarrow> pyfloat" where
  "ad_term N i y =
     (let cdfi = lift1 norm_cdf y in
      fadd (fmul (Fl (real_of_int (2 * int i - 1))) (flog cdfi))
           (fmul (Fl (real_of_int (2 * (int N - int i) + 1))) (flog (fsub (Fl 1) cdfi))))"

fun ad_loop :: "nat \<Rightarrow> nat \<Rightarrow> ndarray list \<Rightarrow> ndarray \<Rightarrow> ndarray" where
  "ad_loop N i [] acc = acc"
| "ad_loop N i (y # ys) acc =
     ad_loop N (Suc i) ys (map2_nd fadd acc (map_nd (ad_term N i) y))"

text \<open>
  Line 100, \<^verbatim>\<open>A2[zerosigma] = 0\<close>, writes into \<^verbatim>\<open>A2\<close>. For scalar replicates
  \<^verbatim>\<open>-N - sum/N\<close> is a numpy scalar (arithmetic on a zero-axis array returns one), which
  has no item assignment: the statement raises TypeError.
\<close>

definition AndersonDarling :: "namespace \<Rightarrow> replicate list \<Rightarrow> int \<Rightarrow> pyerror + ndarray" where
  "AndersonDarling g replicates K =
     (case load_global g ''OrderReplicates'' of
        Inl e \<Rightarrow> Inl e
      | Inr u \<Rightarrow>
     (case OrderReplicates g replicates K of
        Inl e \<Rightarrow> Inl e
      | Inr sortedyi \<Rightarrow>
     (case replicates of
        [] \<Rightarrow> Inl IndexError
      | r0 # rs \<Rightarrow>
     (case load_global g ''scipy'' of
        Inl e \<Rightarrow> Inl e
      | Inr u' \<Rightarrow>
          (let N = length replicates;
               s = ad_loop N 0 sortedyi (map_nd (\<lambda>x. Fl 0) (destimated r0));
               A2 = map_nd (\<lambda>v. fsub (Fl (- real N)) (fdiv v (Fl (real N)))) s
           in case A2 of
                Scalar v \<Rightarrow> Inl TypeError
              | _ \<Rightarrow> Inr (map2_nd (\<lambda>z a. if feq0 z then Fl 0 else a) (destimated r0) A2))))))"

section \<open>generateConfidenceIntervals\<close>

text \<open>
  What the function prints, line by line. \<open>Header\<close> is the explanation of lines 181
  to 195, \<open>TableHeader\<close> lines 271 and 272, \<open>SummaryHeader\<close> lines 321 to 323. A row
  of the coverage table holds alpha, the Chebyshev bound, the observed coverage, its
  two bounds and the normal-theory coverage (line 276); a row of the summary holds the
  state index and the five summary values (lines 337 and 345), the totals line the five
  values alone (line 347).
\<close>

datatype out =
    Header
  | ReplicateLine nat
  | Label string
  | Dump ndarray
  | TableHeader
  | CoverageRow real real real real real real
  | SummaryHeader
  | SummaryRow nat pyfloat pyfloat pyfloat pyfloat pyfloat
  | Totals pyfloat pyfloat pyfloat pyfloat pyfloat

text \<open>The value returned on line 349, in the order of the tuple.\<close>

record coverage =
  alphas :: "real list"
  Pobs :: "real list"
  Plow :: "real list"
  Phigh :: "real list"
  dPobs :: "real list"
  Pnorm :: "real list"

definition min_alpha :: real where
  "min_alpha = 0.1"

definition max_alpha :: real where
  "max_alpha = 4.0"

definition nalpha :: nat where
  "nalpha = 40"

text \<open>\<^verbatim>\<open>numpy.linspace(min_alpha, max_alpha, num=nalpha)\<close>.\<close>

definition alpha_values :: "real list" where
  "alpha_values =
     map (\<lambda>i. min_alpha + real i * ((max_alpha - min_alpha) / real (nalpha - 1))) [0..<nalpha]"

text \<open>
  The coordinates the counting loops visit, in their order: the scalar itself
  (\<open>dim = 0\<close>), \<^verbatim>\<open>range(0, K)\<close> (\<open>dim = 1\<close>), the pairs \<open>(i, j)\<close> of
  \<^verbatim>\<open>range(0, K)\<close> and \<^verbatim>\<open>range(0, i)\<close> (\<open>dim = 2\<close>), nothing otherwise.
\<close>

datatype coord = C0 | C1 nat | C2 nat nat

definition coords :: "nat \<Rightarrow> int \<Rightarrow> coord list" where
  "coords dim' K =
     (if dim' = 0 then [C0]
      else if dim' = 1 then map C1 [0..<nat K]
      else if dim' = 2 then concat (map (\<lambda>i. map (C2 i) [0..<i]) [0..<nat K])
      else [])"

text \<open>
  Reading one entry: \<^verbatim>\<open>a\<close>, \<^verbatim>\<open>a[i]\<close>, \<^verbatim>\<open>a[i, j]\<close>. An index beyond the array raises
  IndexError. An array with another number of axes than the loop expects is outside
  the data model: too many indices raise IndexError, too few leave an array where
  \<^verbatim>\<open>or\<close> and \<^verbatim>\<open>if\<close> need one truth value, which raises ValueError.
\<close>

fun entry :: "ndarray \<Rightarrow> coord \<Rightarrow> pyerror + pyfloat" where
  "entry (Scalar x) C0 = Inr x"
| "entry (Vec xs) (C1 i) = (if i < length xs then Inr (xs ! i) else Inl IndexError)"
| "entry (Mat rows) (C2 i j) =
     (if i < length rows \<and> j < length (rows ! i) then Inr (rows ! i ! j) else Inl IndexError)"
| "entry (Scalar x) (C1 i) = Inl IndexError"
| "entry (Scalar x) (C2 i j) = Inl IndexError"
| "entry (Vec xs) (C2 i j) = Inl IndexError"
| "entry a c = Inl ValueError"

text \<open>
  Lines 221 to 232 (236 to 247, 252 to 263) for one replicate and one coordinate:
  the entry of \<^verbatim>\<open>error\<close> is read and tested for NaN first, then the entry of
  \<^verbatim>\<open>destimated\<close>; only then \<^verbatim>\<open>abs(error) <= alpha * destimated\<close> decides between the
  two counters.
\<close>

datatype verdict = Within | Outside | IsNan | Raises pyerror

definition test_entry :: "real \<Rightarrow> replicate \<Rightarrow> coord \<Rightarrow> verdict" where
  "test_entry alpha r c =
     (case entry (error r) c of
        Inl e \<Rightarrow> Raises e
      | Inr ev \<Rightarrow>
          if isnan ev then IsNan
          else (case entry (destimated r) c of
                  Inl e \<Rightarrow> Raises e
                | Inr dv \<Rightarrow>
                    if isnan dv then IsNan
                    else if fle (fabs ev) (fmul (Fl alpha) dv) then Within else Outside))"

text \<open>What is printed before \<^verbatim>\<open>raise "isnan"\<close>: the replicate's index and its two whole arrays.\<close>

definition nan_report :: "nat \<Rightarrow> nat \<Rightarrow> replicate \<Rightarrow> out list" where
  "nan_report dim' replicate_index r =
     [ReplicateLine replicate_index,
      Label (if dim' = 2 then ''ij_error'' else ''error''), Dump (error r),
      Label (if dim' = 2 then ''ij_estimated'' else ''destimated''), Dump (destimated r)]"

fun count_coords ::
  "real \<Rightarrow> nat \<Rightarrow> nat \<Rightarrow> replicate \<Rightarrow> coord list \<Rightarrow> real \<times> real \<Rightarrow> (out list \<times> pyerror) + real \<times> real"
  where
  "count_coords alpha dim' replicate_index r [] (a, b) = Inr (a, b)"
| "count_coords alpha dim' replicate_index r (c # cs) (a, b) =
     (case test_entry alpha r c of
        Raises e \<Rightarrow> Inl ([], e)
      | IsNan \<Rightarrow> Inl (nan_report dim' replicate_index r, StrRaise ''isnan'')
      | Within \<Rightarrow> count_coords alpha dim' replicate_index r cs (a + 1, b)
      | Outside \<Rightarrow> count_coords alpha dim' replicate_index r cs (a, b + 1))"

text \<open>The loop of line 217 over the replicates, from \<open>replicate_index\<close> on.\<close>

fun count_replicates ::
  "real \<Rightarrow> nat \<Rightarrow> int \<Rightarrow> nat \<Rightarrow> replicate list \<Rightarrow> real \<times> real \<Rightarrow> (out list \<times> pyerror) + real \<times> real"
  where
  "count_replicates alpha dim' K replicate_index [] ab = Inr ab"
| "count_replicates alpha dim' K replicate_index (r # rs) ab =
     (case count_coords alpha dim' replicate_index r (coords dim' K) ab of
        Inl f \<Rightarrow> Inl f
      | Inr ab' \<Rightarrow> count_replicates alpha dim' K (Suc replicate_index) rs ab')"

text \<open>
  The loop of line 209 over the alpha values: both counters start at 1.0, and after
  the replicates have been counted lines 265 to 268 need the name \<^verbatim>\<open>scipy\<close>. The
  result is the pair of counters of every alpha.
\<close>

fun alpha_loop ::
  "namespace \<Rightarrow> nat \<Rightarrow> int \<Rightarrow> replicate list \<Rightarrow> real list \<Rightarrow> (out list \<times> pyerror) + (real \<times> real) list"
  where
  "alpha_loop g dim' K replicates [] = Inr []"
| "alpha_loop g dim' K replicates (alpha # rest) =
     (case count_replicates alpha dim' K 0 replicates (1, 1) of
        Inl f \<Rightarrow> Inl f
      | Inr ab \<Rightarrow>
          (case load_global g ''scipy'' of
             Inl e \<Rightarrow> Inl ([], e)
           | Inr u \<Rightarrow>
               (case alpha_loop g dim' K replicates rest of
                  Inl f \<Rightarrow> Inl f
                | Inr counts \<Rightarrow> Inr (ab # counts))))"

text \<open>Lines 265 to 268 and 273: the six arrays of the result, from the counters.\<close>

definition coverage_of :: "(real \<times> real) list \<Rightarrow> coverage" where
  "coverage_of counts =
     \<lparr>alphas = alpha_values,
      Pobs = map (\<lambda>(a, b). a / (a + b)) counts,
      Plow = map (\<lambda>(a, b). beta_ppf 0.025 a b) counts,
      Phigh = map (\<lambda>(a, b). beta_ppf 0.975 a b) counts,
      dPobs = map (\<lambda>(a, b). sqrt (a * b / ((a + b) ^ 2 * (a + b + 1)))) counts,
      Pnorm = map (\<lambda>alpha. erf (alpha / sqrt 2)) alpha_values\<rparr>"

text \<open>Lines 271 to 276: the coverage table.\<close>

definition coverage_table :: "coverage \<Rightarrow> out list" where
  "coverage_table cov =
     TableHeader #
     map (\<lambda>m. CoverageRow (alphas cov ! m) (1 - 1 / (alphas cov ! m) ^ 2) (Pobs cov ! m)
                 (Plow cov ! m) (Phigh cov ! m) (Pnorm cov ! m))
       [0..<nalpha]"

subsection \<open>Summary statistics\<close>

text \<open>
  Lines 294 to 309 for one replicate and one of its three arrays: the row
  \<^verbatim>\<open>vals[rindex]\<close> afterwards. It starts as zeros. For \<open>dim = 1\<close> the assignment
  \<^verbatim>\<open>vals[rindex,:] = ...\<close> of the whole array stands in the loop over \<^verbatim>\<open>range(0, K)\<close>; for
  \<open>dim = 2\<close> the assignment \<^verbatim>\<open>vals[rindex,:,:] = ...\<close> of the whole matrix stands in the
  loops over \<^verbatim>\<open>range(0, K)\<close> and \<^verbatim>\<open>range(0, i)\<close>, which run their body only when
  \<open>K\<close> is 2 or more. An array of another shape than the row is reported as ValueError
  (see \<open>binop_nd\<close>).
\<close>

definition fits :: "nat \<Rightarrow> int \<Rightarrow> ndarray \<Rightarrow> bool" where
  "fits dim' K a =
     (case a of
        Scalar x \<Rightarrow> dim' = 0
      | Vec xs \<Rightarrow> dim' = 1 \<and> int (length xs) = K
      | Mat rows \<Rightarrow> dim' = 2 \<and> int (length rows) = K \<and> list_all (\<lambda>row. int (length row) = K) rows
      | Higher a b c r xs \<Rightarrow> False)"

definition fill_row :: "nat \<Rightarrow> int \<Rightarrow> ndarray \<Rightarrow> pyerror + ndarray" where
  "fill_row dim' K a =
     (if dim' = 0 then (if fits 0 K a then Inr a else Inl ValueError)
      else if dim' = 1 then
        (if K \<le> 0 then Inr (Vec [])
         else if fits 1 K a then Inr a else Inl ValueError)
      else
        (if K < 2 then Inr (Mat (replicate (nat K) (replicate (nat K) (Fl 0))))
         else if fits 2 K a then Inr a else Inl ValueError))"

text \<open>\<^verbatim>\<open>numpy.average\<close>, \<^verbatim>\<open>numpy.std\<close> and the root of the mean square, along the replicate axis.\<close>

definition fsum :: "pyfloat list \<Rightarrow> pyfloat" where
  "fsum xs = foldl fadd (Fl 0) xs"

definition average :: "pyfloat list \<Rightarrow> pyfloat" where
  "average xs = fdiv (fsum xs) (Fl (real (length xs)))"

definition rms :: "pyfloat list \<Rightarrow> pyfloat" where
  "rms xs = fsqrt (average (map (\<lambda>x. fmul x x) xs))"

definition std :: "pyfloat list \<Rightarrow> pyfloat" where
  "std xs = rms (map (\<lambda>x. fsub x (average xs)) xs)"

definition along_axis0 :: "(pyfloat list \<Rightarrow> pyfloat) \<Rightarrow> nat \<Rightarrow> int \<Rightarrow> ndarray list \<Rightarrow> ndarray" where
  "along_axis0 f dim' K vals =
     (if dim' = 0 then Scalar (f (map scalar_val vals))
      else if dim' = 1 then Vec (map (\<lambda>i. f (column1 vals i)) [0..<nat K])
      else Mat (map (\<lambda>i. map (\<lambda>j. f (column2 vals i j)) [0..<nat K]) [0..<nat K]))"

record summary =
  aveval :: ndarray
  bias :: ndarray
  rms_error :: ndarray
  standarddev :: ndarray
  ave_std :: ndarray

text \<open>
  Lines 279 to 318. With three axes or more no branch of lines 279 to 290 binds
  \<^verbatim>\<open>vals\<close>, and line 311 reads it. A negative \<open>K\<close> is refused by \<^verbatim>\<open>numpy.zeros\<close>
  when an axis has that extent.
\<close>

definition summary_statistics :: "nat \<Rightarrow> int \<Rightarrow> replicate list \<Rightarrow> pyerror + summary" where
  "summary_statistics dim' K replicates =
     (if 3 \<le> dim' then Inl (UnboundLocalError ''vals'')
      else if 1 \<le> dim' \<and> K < 0 then Inl ValueError
      else
        (case collect (map (\<lambda>r.
                 case fill_row dim' K (estimated r) of
                   Inl e \<Rightarrow> Inl e
                 | Inr v \<Rightarrow>
                     (case fill_row dim' K (error r) of
                        Inl e \<Rightarrow> Inl e
                      | Inr ve \<Rightarrow>
                          (case fill_row dim' K (destimated r) of
                             Inl e \<Rightarrow> Inl e
                           | Inr vs \<Rightarrow> Inr (v, ve, vs)))) replicates) of
           Inl e \<Rightarrow> Inl e
         | Inr rows \<Rightarrow>
             (let vals = map fst rows;
                  vals_error = map (\<lambda>t. fst (snd t)) rows;
                  vals_std = map (\<lambda>t. snd (snd t)) rows
              in Inr \<lparr>aveval = along_axis0 average dim' K vals,
                      bias = along_axis0 average dim' K vals_error,
                      rms_error = along_axis0 rms dim' K vals_error,
                      standarddev = along_axis0 std dim' K vals,
                      ave_std = along_axis0 rms dim' K vals_std\<rparr>)))"

text \<open>
  Lines 324 to 347. For \<open>dim = 1\<close> row \<open>i\<close> shows entry \<open>i\<close> of every summary array;
  for \<open>dim = 2\<close> it shows entry \<open>(0, i)\<close>. The totals line shows the values of the
  last row; when the loop never ran (\<open>K\<close> not positive) the name \<^verbatim>\<open>pave\<close> is unbound
  there.
\<close>

definition summary_entry :: "nat \<Rightarrow> nat \<Rightarrow> ndarray \<Rightarrow> pyfloat" where
  "summary_entry dim' i a =
     (if dim' = 0 then scalar_val a
      else if dim' = 1 then vec_val a ! i
      else mat_val a ! 0 ! i)"

definition summary_row :: "nat \<Rightarrow> summary \<Rightarrow> nat \<Rightarrow> out" where
  "summary_row dim' st i =
     SummaryRow i (summary_entry dim' i (aveval st)) (summary_entry dim' i (bias st))
       (summary_entry dim' i (rms_error st)) (summary_entry dim' i (standarddev st))
       (summary_entry dim' i (ave_std st))"

definition totals_row :: "nat \<Rightarrow> summary \<Rightarrow> nat \<Rightarrow> out" where
  "totals_row dim' st i =
     Totals (summary_entry dim' i (aveval st)) (summary_entry dim' i (bias st))
       (summary_entry dim' i (rms_error st)) (summary_entry dim' i (standarddev st))
       (summary_entry dim' i (ave_std st))"

definition summary_lines :: "nat \<Rightarrow> int \<Rightarrow> summary \<Rightarrow> out list \<times> (pyerror + unit)" where
  "summary_lines dim' K st =
     (if dim' = 0 then ([SummaryHeader, totals_row 0 st 0], Inr ())
      else if K \<le> 0 then ([SummaryHeader], Inl (UnboundLocalError ''pave''))
      else (SummaryHeader # map (summary_row dim' st) [0..<nat K] @ [totals_row dim' st (nat K - 1)],
            Inr ()))"

subsection \<open>The function\<close>

definition generateConfidenceIntervals ::
  "namespace \<Rightarrow> replicate list \<Rightarrow> int \<Rightarrow> out list \<times> (pyerror + coverage)" where
  "generateConfidenceIntervals g replicates K =
     (case load_global g ''numpy'' of
        Inl e \<Rightarrow> ([Header], Inl e)
      | Inr u \<Rightarrow>
     (case replicates of
        [] \<Rightarrow> ([Header], Inl IndexError)
      | r0 # rs \<Rightarrow>
          (let dim' = ndim (estimated r0) in
           case alpha_loop g dim' K replicates alpha_values of
             Inl (printed, e) \<Rightarrow> (Header # printed, Inl e)
           | Inr counts \<Rightarrow>
               (let cov = coverage_of counts in
                case summary_statistics dim' K replicates of
                  Inl e \<Rightarrow> (Header # coverage_table cov, Inl e)
                | Inr st \<Rightarrow>
                    (case summary_lines dim' K st of
                       (printed, Inl e) \<Rightarrow> (Header # coverage_table cov @ printed, Inl e)
                     | (printed, Inr u') \<Rightarrow> (Header # coverage_table cov @ printed, Inr cov))))))"

section \<open>ReplicateSets and counts\<close>

text \<open>
  The statements below are about ReplicateSets as the data model has them: at least
  one replicate; replicate 0's estimate has at most two axes; every array of every
  replicate is a scalar, a vector of length \<open>K\<close> or a \<open>K\<close> by \<open>K\<close> matrix accordingly;
  and \<open>K\<close> is at least 1 where there are states.
\<close>

fun entries :: "ndarray \<Rightarrow> pyfloat list" where
  "entries (Scalar x) = [x]"
| "entries (Vec xs) = xs"
| "entries (Mat rows) = concat rows"
| "entries (Higher a b c r xs) = xs"

definition valid_set :: "replicate list \<Rightarrow> int \<Rightarrow> bool" where
  "valid_set replicates K =
     (case replicates of
        [] \<Rightarrow> False
      | r0 # rs \<Rightarrow>
          ndim (estimated r0) \<le> 2 \<and> (ndim (estimated r0) = 0 \<or> 1 \<le> K) \<and>
          list_all (\<lambda>r. fits (ndim (estimated r0)) K (estimated r)
                       \<and> fits (ndim (estimated r0)) K (error r)
                       \<and> fits (ndim (estimated r0)) K (destimated r)) replicates)"

definition no_nan :: "ndarray \<Rightarrow> bool" where
  "no_nan a = list_all (\<lambda>x. \<not> isnan x) (entries a)"

definition nonneg :: "ndarray \<Rightarrow> bool" where
  "nonneg a = list_all (\<lambda>x. fle (Fl 0) x) (entries a)"

text \<open>
  The counters the loops must end with, counted directly: the number of coordinates of
  a replicate, and of all replicates, whose test \<^verbatim>\<open>abs(error) <= alpha * destimated\<close>
  succeeds, and the pairs \<open>(a, b)\<close> over the alpha grid that follow from them.
\<close>

definition hits :: "real \<Rightarrow> replicate \<Rightarrow> coord list \<Rightarrow> nat" where
  "hits alpha r cs = length (filter (\<lambda>c. test_entry alpha r c = Within) cs)"

definition total_hits :: "real \<Rightarrow> nat \<Rightarrow> int \<Rightarrow> replicate list \<Rightarrow> nat" where
  "total_hits alpha dim' K rs = sum_list (map (\<lambda>r. hits alpha r (coords dim' K)) rs)"

definition expected_counts :: "nat \<Rightarrow> int \<Rightarrow> replicate list \<Rightarrow> (real \<times> real) list" where
  "expected_counts dim' K rs =
     map (\<lambda>alpha. (1 + real (total_hits alpha dim' K rs),
                    1 + real (length rs * length (coords dim' K) - total_hits alpha dim' K rs)))
       alpha_values"

text \<open>An entry that the counting loop can read and that is a number in both arrays.\<close>

definition good_entry :: "replicate \<Rightarrow> coord \<Rightarrow> bool" where
  "good_entry r c = (\<exists>e d. entry (error r) c = Inr (Fl e) \<and> entry (destimated r) c = Inr (Fl d))"

definition nonneg_entry :: "replicate \<Rightarrow> coord \<Rightarrow> bool" where
  "nonneg_entry r c = (\<exists>d. entry (destimated r) c = Inr (Fl d) \<and> 0 \<le> d)"

text \<open>
  A NaN that enters the coverage test: an entry of \<^verbatim>\<open>error\<close> or \<^verbatim>\<open>destimated\<close> at a
  coordinate the counting loops visit. \<open>first_nan\<close> is the index of the first replicate
  that has one.
\<close>

definition nan_entry :: "replicate \<Rightarrow> coord \<Rightarrow> bool" where
  "nan_entry r c = (entry (error r) c = Inr NaN \<or> entry (destimated r) c = Inr NaN)"

definition nan_in_scope :: "nat \<Rightarrow> int \<Rightarrow> replicate \<Rightarrow> bool" where
  "nan_in_scope dim' K r = list_ex (nan_entry r) (coords dim' K)"

definition first_nan :: "nat \<Rightarrow> int \<Rightarrow> replicate list \<Rightarrow> nat" where
  "first_nan dim' K replicates = length (takeWhile (\<lambda>r. \<not> nan_in_scope dim' K r) replicates)"

text \<open>An entry that the counting loop can read in both arrays.\<close>

definition readable :: "replicate \<Rightarrow> coord \<Rightarrow> bool" where
  "readable r c = (\<exists>x y. entry (error r) c = Inr x \<and> entry (destimated r) c = Inr y)"

section \<open>The two statistics, coordinate by coordinate\<close>

text \<open>
  What OrderReplicates and AndersonDarling are meant to compute, stated for one
  coordinate at a time. \<open>all_coords\<close> lists every coordinate of an array of the data
  model (the whole matrix for two axes, not only its lower triangle), and \<open>value_at\<close>
  reads one.
\<close>

definition all_coords :: "nat \<Rightarrow> int \<Rightarrow> coord list" where
  "all_coords dim' K =
     (if dim' = 0 then [C0]
      else if dim' = 1 then map C1 [0..<nat K]
      else if dim' = 2 then concat (map (\<lambda>i. map (C2 i) [0..<nat K]) [0..<nat K])
      else [])"

fun value_at :: "ndarray \<Rightarrow> coord \<Rightarrow> pyfloat" where
  "value_at (Scalar x) C0 = x"
| "value_at (Vec xs) (C1 i) = xs ! i"
| "value_at (Mat rows) (C2 i j) = rows ! i ! j"
| "value_at a c = NaN"

text \<open>
  The normalised sample of one coordinate: every replicate's error divided by the
  corrected scale of replicate 0, in the order of the replicates.
\<close>

definition normalized_column :: "replicate list \<Rightarrow> coord \<Rightarrow> pyfloat list" where
  "normalized_column replicates c =
     map (\<lambda>r. fdiv (value_at (error r) c) (value_at (add_mask (destimated (hd replicates))) c))
       replicates"

text \<open>
  The sum of line 98 over one sorted sample, with the loop index \<open>i\<close> counting from 0,
  and the statistic of line 99 from it.
\<close>

fun ad_sum :: "nat \<Rightarrow> nat \<Rightarrow> pyfloat list \<Rightarrow> pyfloat \<Rightarrow> pyfloat" where
  "ad_sum N i [] s = s"
| "ad_sum N i (y # ys) s = ad_sum N (Suc i) ys (fadd s (ad_term N i y))"

definition ad_statistic :: "nat \<Rightarrow> pyfloat list \<Rightarrow> pyfloat" where
  "ad_statistic N ys = fsub (Fl (- real N)) (fdiv (ad_sum N 0 ys (Fl 0)) (Fl (real N)))"

text \<open>
  The statistic as the specification states it: the same sum with the 1-based rank of
  the order statistic in both weights, so that the first of the sorted sample enters
  with \<open>i = 1\<close>.
\<close>

definition classical_statistic :: "nat \<Rightarrow> pyfloat list \<Rightarrow> pyfloat" where
  "classical_statistic N ys = fsub (Fl (- real N)) (fdiv (ad_sum N 1 ys (Fl 0)) (Fl (real N)))"

text \<open>The same multiplier applied to a replicate's error and to its \<^verbatim>\<open>destimated\<close>.\<close>

definition rescale :: "real \<Rightarrow> replicate \<Rightarrow> replicate" where
  "rescale k r =
     r\<lparr>error := map_nd (fmul (Fl k)) (error r), destimated := map_nd (fmul (Fl k)) (destimated r)\<rparr>"

text \<open>The terms of the power series of \<open>erf\<close> at 1/2, without their signs.\<close>

definition erf_coeff :: "nat \<Rightarrow> real" where
  "erf_coeff n = (1 / 2) ^ (2 * n + 1) / (fact n * real (2 * n + 1))"

section \<open>The unbound name np\<close>

lemma load_np: "load_global (''np'' # module_globals) name = (if name = ''np'' then Inr () else load_global module_globals name)"
  by (simp add: load_global_def)

lemma load_OrderReplicates: "load_global module_globals ''OrderReplicates'' = Inr ()"
  by (simp add: load_global_def module_globals_def)

lemma load_np_missing: "load_global module_globals ''np'' = Inl (NameError ''np'')"
  by (simp add: load_global_def module_globals_def py_builtins_def)

lemma load_scipy: "load_global module_globals ''scipy'' = Inr ()"
  by (simp add: load_global_def module_globals_def)

lemma load_numpy: "load_global module_globals ''numpy'' = Inr ()"
  by (simp add: load_global_def module_globals_def)

lemma upt_2: "[0..<2] = [0, 1::nat]"
  by (simp add: upt_rec)

text \<open>
  Claim C4. The module imports \<^verbatim>\<open>numpy\<close> under that name only, and the body of
  OrderReplicates starts with \<^verbatim>\<open>np.shape(...)\<close>. With the module's own dictionary
  OrderReplicates therefore ends with NameError for the name \<^verbatim>\<open>np\<close> on every input,
  whatever the replicates and \<open>K\<close> are (they are never read), and AndersonDarling, whose
  first statement calls OrderReplicates, ends with the same error on every input.
\<close>

theorem np_unbound_everywhere:
  "OrderReplicates module_globals replicates K = Inl (NameError ''np'')
   \<and> AndersonDarling module_globals replicates K = Inl (NameError ''np'')"
  by (simp add: OrderReplicates_def AndersonDarling_def load_global_def module_globals_def
      py_builtins_def)

theorem np_unbound_everywhere_witness:
  "OrderReplicates module_globals
     [\<lparr>estimated = Vec [Fl 1, Fl 2], error = Vec [Fl (1/2), Fl (-1)], destimated = Vec [Fl 0, Fl 1]\<rparr>] 2
     = Inl (NameError ''np'')
   \<and> AndersonDarling module_globals
     [\<lparr>estimated = Vec [Fl 1, Fl 2], error = Vec [Fl (1/2), Fl (-1)], destimated = Vec [Fl 0, Fl 1]\<rparr>] 2
     = Inl (NameError ''np'')"
  by (rule np_unbound_everywhere)

section \<open>A value of the normal distribution function\<close>

text \<open>
  The series of \<open>erf\<close> at 1/2 alternates with terms that decrease to 0, so its sum
  lies between its partial sums: \<open>erf (1/2)\<close> is strictly between 0 and 1, and the
  normal distribution function at \<open>sqrt 2 / 2\<close> strictly between 1/2 and 1.
\<close>

lemma erf_coeff_nonneg: "0 \<le> erf_coeff n"
  by (simp add: erf_coeff_def)

lemma erf_coeff_decreasing: "erf_coeff (Suc n) \<le> erf_coeff n"
  unfolding erf_coeff_def
proof (rule frac_le)
  show "(0::real) \<le> (1 / 2) ^ (2 * n + 1)" by simp
  show "(1 / 2 :: real) ^ (2 * Suc n + 1) \<le> (1 / 2) ^ (2 * n + 1)"
    by (rule power_decreasing) simp_all
  show "0 < fact n * real (2 * n + 1)" by simp
  show "fact n * real (2 * n + 1) \<le> fact (Suc n) * real (2 * Suc n + 1)"
    by (intro mult_mono) simp_all
qed

lemma erf_coeff_le: "erf_coeff n \<le> inverse (real (Suc n))"
proof -
  have "real (Suc n) \<le> 1 * real (2 * n + 1)" by simp
  also have "\<dots> \<le> fact n * real (2 * n + 1)" by (intro mult_right_mono) simp_all
  finally have d: "real (Suc n) \<le> fact n * real (2 * n + 1)" .
  have "(1 / 2 :: real) ^ (2 * n + 1) \<le> 1" by (rule power_le_one) simp_all
  then have "erf_coeff n \<le> 1 / real (Suc n)"
    unfolding erf_coeff_def using d by (intro frac_le) simp_all
  then show ?thesis by (simp add: inverse_eq_divide)
qed

lemma erf_coeff_tendsto: "erf_coeff \<longlonglongrightarrow> 0"
proof (rule real_tendsto_sandwich[where f = "\<lambda>n. 0" and h = "\<lambda>n. inverse (real (Suc n))"])
  show "\<forall>\<^sub>F n in sequentially. 0 \<le> erf_coeff n" by (simp add: erf_coeff_nonneg)
  show "\<forall>\<^sub>F n in sequentially. erf_coeff n \<le> inverse (real (Suc n))"
    by (rule always_eventually, rule allI, rule erf_coeff_le)
  show "(\<lambda>n. 0::real) \<longlonglongrightarrow> 0" by simp
  show "(\<lambda>n. inverse (real (Suc n))) \<longlonglongrightarrow> 0" by (rule LIMSEQ_inverse_real_of_nat)
qed

lemma erf_half_series: "erf (1 / 2) = 2 / sqrt pi * (\<Sum>n. (- 1) ^ n * erf_coeff n)"
  by (simp add: erf_def erf_coeff_def)

lemma erf_half_range: "0 < erf (1 / 2)" "erf (1 / 2) < 1"
proof -
  note L = summable_Leibniz'[OF erf_coeff_tendsto erf_coeff_nonneg erf_coeff_decreasing]
  have lo: "(\<Sum>i<2 * 1. (- 1) ^ i * erf_coeff i) = 11 / 24"
    by (simp add: erf_coeff_def numeral_2_eq_2 eval_nat_numeral)
  have hi: "(\<Sum>i<2 * 0 + 1. (- 1) ^ i * erf_coeff i) = 1 / 2"
    by (simp add: erf_coeff_def)
  from L(2)[of 1] lo have l: "11 / 24 \<le> (\<Sum>n. (- 1) ^ n * erf_coeff n)" by simp
  from L(4)[of 0] hi have h: "(\<Sum>n. (- 1) ^ n * erf_coeff n) \<le> 1 / 2" by simp
  have "0 < 2 / sqrt pi * (11 / 24)" by simp
  also have "\<dots> \<le> erf (1 / 2)"
    unfolding erf_half_series using l by (intro mult_left_mono) simp_all
  finally show "0 < erf (1 / 2)" .
  have "sqrt 2 \<le> sqrt pi" using pi_ge_two by simp
  moreover have "1 < sqrt 2" by simp
  ultimately have s: "1 < sqrt pi" by linarith
  have "erf (1 / 2) \<le> 2 / sqrt pi * (1 / 2)"
    unfolding erf_half_series using h by (intro mult_left_mono) simp_all
  also have "\<dots> = 1 / sqrt pi" by simp
  also have "\<dots> < 1" using s by simp
  finally show "erf (1 / 2) < 1" .
qed

lemma norm_cdf_range: "1 / 2 < norm_cdf (sqrt 2 / 2)" "norm_cdf (sqrt 2 / 2) < 1"
proof -
  have "sqrt 2 / 2 / sqrt 2 = 1 / 2" by simp
  then have "norm_cdf (sqrt 2 / 2) = (1 + erf (1 / 2)) / 2" by (simp add: norm_cdf_def)
  with erf_half_range show "1 / 2 < norm_cdf (sqrt 2 / 2)" "norm_cdf (sqrt 2 / 2) < 1" by simp_all
qed

section \<open>The two bodies once np is bound\<close>

text \<open>
  What the bodies of OrderReplicates and AndersonDarling compute in a namespace that
  binds \<^verbatim>\<open>np\<close> (as \<^verbatim>\<open>import numpy as np\<close> would). The module as it stands never gets
  this far (claim C4).
\<close>

lemma finite_part_no_nan:
  "\<forall>x\<in>set xs. \<not> isnan x \<Longrightarrow> map Fl (finite_part xs) = xs"
proof (induction xs)
  case Nil
  then show ?case by simp
next
  case (Cons x xs)
  then show ?case by (cases x) auto
qed

lemma filter_isnan_no_nan:
  "\<forall>x\<in>set xs. \<not> isnan x \<Longrightarrow> filter isnan xs = []"
  by (induction xs) auto

lemma length_fsort: "length (fsort xs) = length xs"
proof (induction xs)
  case Nil
  then show ?case by (simp add: fsort_def)
next
  case (Cons x xs)
  then show ?case by (cases x) (auto simp: fsort_def)
qed

lemma fsort_no_nan:
  assumes "\<forall>x\<in>set xs. \<not> isnan x"
  shows "fsort xs = map Fl (sort (finite_part xs))" "length (finite_part xs) = length xs"
proof -
  show "fsort xs = map Fl (sort (finite_part xs))"
    by (simp add: fsort_def filter_isnan_no_nan[OF assms])
  from finite_part_no_nan[OF assms] have "length (map Fl (finite_part xs)) = length xs" by simp
  then show "length (finite_part xs) = length xs" by simp
qed

lemma fsort_sorted:
  assumes "\<forall>x\<in>set xs. \<not> isnan x" "Suc n < length xs"
  shows "\<exists>a b. fsort xs ! n = Fl a \<and> fsort xs ! Suc n = Fl b \<and> a \<le> b"
proof -
  let ?s = "sort (finite_part xs)"
  from fsort_no_nan[OF assms(1)] assms(2) have l: "Suc n < length ?s" by simp
  have "sorted ?s" by simp
  with l have "?s ! n \<le> ?s ! Suc n" by (simp add: sorted_iff_nth_mono)
  with l show ?thesis by (simp add: fsort_no_nan(1)[OF assms(1)])
qed

lemma collect_map_total: "collect (map (\<lambda>x. Inr (f x)) xs) = Inr (map f xs)"
  by (induction xs) simp_all

lemma fits_same_shape: "fits dim' K a \<Longrightarrow> fits dim' K b \<Longrightarrow> same_shape a b"
proof (cases a; cases b)
  fix xs ys assume "fits dim' K a" "fits dim' K b" "a = Mat xs" "b = Mat ys"
  then have "length xs = length ys" "\<forall>r\<in>set xs. int (length r) = K" "\<forall>r\<in>set ys. int (length r) = K"
    by (auto simp: fits_def list_all_iff)
  then have "map length xs = map length ys"
  proof (intro nth_equalityI)
    fix i assume "i < length (map length xs)"
    then have i: "i < length xs" "i < length ys" using \<open>length xs = length ys\<close> by simp_all
    then have "xs ! i \<in> set xs" "ys ! i \<in> set ys" by simp_all
    with \<open>\<forall>r\<in>set xs. int (length r) = K\<close> \<open>\<forall>r\<in>set ys. int (length r) = K\<close>
    have "int (length (xs ! i)) = int (length (ys ! i))" by simp
    with i show "map length xs ! i = map length ys ! i" by simp
  qed simp
  with \<open>a = Mat xs\<close> \<open>b = Mat ys\<close> show "same_shape a b" by simp
qed (auto simp: fits_def)

lemma fits_map_nd: "fits dim' K (map_nd f a) = fits dim' K a"
  by (cases a) (auto simp: fits_def list_all_iff)

lemma fits_dim: "fits dim' K a \<Longrightarrow> dim' = 0 \<or> dim' = 1 \<or> dim' = 2"
  by (cases a) (auto simp: fits_def)

lemma fits0: "fits 0 K a \<longleftrightarrow> (\<exists>x. a = Scalar x)"
  by (cases a) (auto simp: fits_def)

lemma fits1: "fits (Suc 0) K a \<longleftrightarrow> (\<exists>xs. a = Vec xs \<and> length xs = nat K \<and> 0 \<le> K)"
  by (cases a) (auto simp: fits_def)

lemma fits2: "fits 2 K a \<longleftrightarrow>
   (\<exists>rows. a = Mat rows \<and> length rows = nat K \<and> (\<forall>r\<in>set rows. length r = nat K) \<and> 0 \<le> K)"
  by (cases a) (auto simp: fits_def list_all_iff)

lemma all_coords0: "c \<in> set (all_coords 0 K) \<longleftrightarrow> c = C0"
  by (simp add: all_coords_def)

lemma all_coords1: "c \<in> set (all_coords (Suc 0) K) \<longleftrightarrow> (\<exists>i. c = C1 i \<and> i < nat K)"
  by (auto simp: all_coords_def)

lemma all_coords2: "c \<in> set (all_coords 2 K) \<longleftrightarrow> (\<exists>i j. c = C2 i j \<and> i < nat K \<and> j < nat K)"
proof
  assume "c \<in> set (all_coords 2 K)"
  then show "\<exists>i j. c = C2 i j \<and> i < nat K \<and> j < nat K" by (auto simp: all_coords_def)
next
  assume "\<exists>i j. c = C2 i j \<and> i < nat K \<and> j < nat K"
  then obtain i j where "c = C2 i j" "i < nat K" "j < nat K" by blast
  then have "c \<in> set (map (C2 i) [0..<nat K])" "i \<in> set [0..<nat K]" by simp_all
  then show "c \<in> set (all_coords 2 K)" unfolding all_coords_def by (simp del: set_upt) blast
qed

lemma entry_value_at:
  assumes "fits dim' K a" "c \<in> set (all_coords dim' K)"
  shows "entry a c = Inr (value_at a c)"
proof -
  from fits_dim[OF assms(1)] consider "dim' = 0" | "dim' = Suc 0" | "dim' = 2" by auto
  then show ?thesis
  proof cases
    case 1
    with assms show ?thesis by (auto simp: fits0 all_coords0)
  next
    case 2
    with assms show ?thesis by (auto simp: fits1 all_coords1)
  next
    case 3
    with assms show ?thesis by (auto simp: fits2 all_coords2)
  qed
qed

lemma value_at_map_nd:
  assumes "fits dim' K a" "c \<in> set (all_coords dim' K)"
  shows "value_at (map_nd f a) c = f (value_at a c)"
proof -
  from fits_dim[OF assms(1)] consider "dim' = 0" | "dim' = Suc 0" | "dim' = 2" by auto
  then show ?thesis
  proof cases
    case 1
    with assms show ?thesis by (auto simp: fits0 all_coords0)
  next
    case 2
    with assms show ?thesis by (auto simp: fits1 all_coords1)
  next
    case 3
    with assms show ?thesis by (auto simp: fits2 all_coords2)
  qed
qed

lemma value_at_map2_nd:
  assumes "fits dim' K a" "fits dim' K b" "c \<in> set (all_coords dim' K)"
  shows "value_at (map2_nd f a b) c = f (value_at a c) (value_at b c)"
proof -
  from fits_dim[OF assms(1)] consider "dim' = 0" | "dim' = Suc 0" | "dim' = 2" by auto
  then show ?thesis
  proof cases
    case 1
    with assms show ?thesis by (auto simp: fits0 all_coords0)
  next
    case 2
    with assms show ?thesis by (auto simp: fits1 all_coords1)
  next
    case 3
    with assms obtain xs ys i j where s: "a = Mat xs" "b = Mat ys" "c = C2 i j" "i < nat K" "j < nat K"
      "length xs = nat K" "length ys = nat K" "\<forall>r\<in>set xs. length r = nat K" "\<forall>r\<in>set ys. length r = nat K"
      by (auto simp: fits2 all_coords2)
    then have "length (xs ! i) = nat K" "length (ys ! i) = nat K" by simp_all
    with s show ?thesis by simp
  qed
qed

lemma fits_map2_nd:
  assumes "fits dim' K a" "fits dim' K b"
  shows "fits dim' K (map2_nd f a b)"
proof -
  from fits_dim[OF assms(1)] consider "dim' = 0" | "dim' = Suc 0" | "dim' = 2" by auto
  then show ?thesis
  proof cases
    case 1
    with assms show ?thesis by (auto simp: fits0)
  next
    case 2
    with assms show ?thesis by (auto simp: fits1)
  next
    case 3
    with assms obtain xs ys where s: "a = Mat xs" "b = Mat ys" "0 \<le> K"
      "length xs = nat K" "length ys = nat K" "\<forall>r\<in>set xs. length r = nat K" "\<forall>r\<in>set ys. length r = nat K"
      by (auto simp: fits2)
    have "\<forall>r\<in>set (map2 (map2 f) xs ys). length r = nat K"
    proof
      fix r assume "r \<in> set (map2 (map2 f) xs ys)"
      then obtain x y where "(x, y) \<in> set (zip xs ys)" "r = map2 f x y" by auto
      then have "x \<in> set xs" "y \<in> set ys" "r = map2 f x y" by (auto dest: set_zip_leftD set_zip_rightD)
      with s show "length r = nat K" by simp
    qed
    with s 3 show ?thesis by (simp add: fits2 del: map_map)
  qed
qed

lemma fits_ext:
  assumes "fits dim' K a" "fits dim' K b" "\<forall>c\<in>set (all_coords dim' K). value_at a c = value_at b c"
  shows "a = b"
proof -
  from fits_dim[OF assms(1)] consider "dim' = 0" | "dim' = Suc 0" | "dim' = 2" by auto
  then show ?thesis
  proof cases
    case 1
    with assms show ?thesis by (auto simp: fits0 all_coords0)
  next
    case 2
    with assms obtain xs ys where s: "a = Vec xs" "b = Vec ys" "length xs = nat K" "length ys = nat K"
      by (auto simp: fits1)
    have "xs = ys"
    proof (rule nth_equalityI)
      show "length xs = length ys" using s by simp
      fix i assume "i < length xs"
      then have "C1 i \<in> set (all_coords dim' K)" using s 2 by (simp add: all_coords1)
      with assms(3) s show "xs ! i = ys ! i" by auto
    qed
    with s show ?thesis by simp
  next
    case 3
    with assms obtain xs ys where s: "a = Mat xs" "b = Mat ys"
      "length xs = nat K" "length ys = nat K" "\<forall>r\<in>set xs. length r = nat K" "\<forall>r\<in>set ys. length r = nat K"
      by (auto simp: fits2)
    have "xs = ys"
    proof (rule nth_equalityI)
      show "length xs = length ys" using s by simp
      fix i assume i: "i < length xs"
      show "xs ! i = ys ! i"
      proof (rule nth_equalityI)
        from i s show "length (xs ! i) = length (ys ! i)" by simp
        fix j assume "j < length (xs ! i)"
        with i s have "C2 i j \<in> set (all_coords dim' K)" using 3 by (auto simp: all_coords2)
        with assms(3) s show "xs ! i ! j = ys ! i ! j" by auto
      qed
    qed
    with s show ?thesis by simp
  qed
qed

lemma value_at_scalar_val: "fits 0 K y \<Longrightarrow> scalar_val y = value_at y C0"
  by (auto simp: fits0)

lemma value_at_vec_val: "fits (Suc 0) K y \<Longrightarrow> vec_val y ! i = value_at y (C1 i)"
  by (auto simp: fits1)

lemma value_at_mat_val: "fits 2 K y \<Longrightarrow> mat_val y ! i ! j = value_at y (C2 i j)"
  by (auto simp: fits2)

lemma sort_slices_fits:
  assumes "fits dim' K sigma" "\<forall>y\<in>set yi. fits dim' K y"
  shows "\<exists>ys. sort_slices sigma yi K = Inr ys \<and> length ys = length yi
           \<and> (\<forall>n<length yi. fits dim' K (ys ! n)
                 \<and> (\<forall>c\<in>set (all_coords dim' K).
                       value_at (ys ! n) c = fsort (map (\<lambda>y. value_at y c) yi) ! n))"
proof -
  have lt: "int i < K" if "i < nat K" for i using that by linarith
  from fits_dim[OF assms(1)] consider "dim' = 0" | "dim' = Suc 0" | "dim' = 2" by auto
  then show ?thesis
  proof cases
    case 1
    with assms(1) obtain s where s: "sigma = Scalar s" by (auto simp: fits0)
    have m: "map scalar_val yi = map (\<lambda>y. value_at y C0) yi"
      using assms(2) 1 by (intro map_cong) (auto simp: value_at_scalar_val)
    show ?thesis using s 1
      by (simp add: sort_slices_def length_fsort all_coords0 fits0 m)
  next
    case 2
    with assms(1) obtain ss where s: "sigma = Vec ss" "length ss = nat K" "0 \<le> K" by (auto simp: fits1)
    have m: "column1 yi i = map (\<lambda>y. value_at y (C1 i)) yi" for i
      unfolding column1_def using assms(2) 2 by (intro map_cong) (auto simp: value_at_vec_val)
    let ?row = "\<lambda>n. Vec (map (\<lambda>i. if int i < K then fsort (column1 yi i) ! n else Fl 0) [0..<nat K])"
    let ?ys = "map ?row [0..<length yi]"
    have e: "sort_slices sigma yi K = Inr ?ys"
      using s by (simp add: sort_slices_def)
    have "fits dim' K (?ys ! n)
            \<and> (\<forall>c\<in>set (all_coords dim' K). value_at (?ys ! n) c = fsort (map (\<lambda>y. value_at y c) yi) ! n)"
      if n: "n < length yi" for n
    proof (intro conjI ballI)
      from n have yn: "?ys ! n = ?row n" by simp
      show "fits dim' K (?ys ! n)" unfolding yn using 2 s by (simp add: fits1)
      fix c assume "c \<in> set (all_coords dim' K)"
      then obtain i where c: "c = C1 i" "i < nat K" using 2 by (auto simp: all_coords1)
      show "value_at (?ys ! n) c = fsort (map (\<lambda>y. value_at y c) yi) ! n"
        unfolding yn c(1) using c(2) by (simp add: lt m)
    qed
    with e show ?thesis by (intro exI[of _ ?ys]) simp
  next
    case 3
    with assms(1) obtain rows where s: "sigma = Mat rows" "length rows = nat K"
      "\<forall>r\<in>set rows. length r = nat K" "0 \<le> K" by (auto simp: fits2)
    have nc: "ncols rows = nat K"
    proof (cases rows)
      case Nil
      with s show ?thesis by (simp add: ncols_def)
    next
      case (Cons r rs)
      with s show ?thesis by (simp add: ncols_def)
    qed
    have m: "column2 yi i j = map (\<lambda>y. value_at y (C2 i j)) yi" for i j
      unfolding column2_def using assms(2) 3 by (intro map_cong) (auto simp: value_at_mat_val)
    let ?row = "\<lambda>n. Mat (map (\<lambda>i. map (\<lambda>j. if int i < K \<and> int j < K
                                                    then fsort (column2 yi i j) ! n else Fl 0)
                                      [0..<nat K])
                            [0..<nat K])"
    let ?ys = "map ?row [0..<length yi]"
    have e: "sort_slices sigma yi K = Inr ?ys"
      using s nc by (simp add: sort_slices_def)
    have "fits dim' K (?ys ! n)
            \<and> (\<forall>c\<in>set (all_coords dim' K). value_at (?ys ! n) c = fsort (map (\<lambda>y. value_at y c) yi) ! n)"
      if n: "n < length yi" for n
    proof (intro conjI ballI)
      from n have yn: "?ys ! n = ?row n" by simp
      show "fits dim' K (?ys ! n)" unfolding yn using 3 s by (simp add: fits2)
      fix c assume "c \<in> set (all_coords dim' K)"
      then obtain i j where c: "c = C2 i j" "i < nat K" "j < nat K" using 3 by (auto simp: all_coords2)
      show "value_at (?ys ! n) c = fsort (map (\<lambda>y. value_at y c) yi) ! n"
        unfolding yn c(1) using c(2,3) by (simp add: lt m)
    qed
    with e show ?thesis by (intro exI[of _ ?ys]) simp
  qed
qed

lemma OrderReplicates_valid:
  assumes "load_global g ''np'' = Inr ()" "replicates \<noteq> []"
    and "fits dim' K (destimated (hd replicates))" "\<forall>r\<in>set replicates. fits dim' K (error r)"
  shows "\<exists>ys. OrderReplicates g replicates K = Inr ys \<and> length ys = length replicates
           \<and> (\<forall>n<length replicates. fits dim' K (ys ! n)
                 \<and> (\<forall>c\<in>set (all_coords dim' K).
                       value_at (ys ! n) c = fsort (normalized_column replicates c) ! n))"
proof -
  from assms(2) obtain r0 rest where rs: "replicates = r0 # rest" by (cases replicates) auto
  let ?sigma = "add_mask (destimated (hd replicates))"
  let ?yi = "map (\<lambda>r. map2_nd fdiv (error r) ?sigma) replicates"
  have fs: "fits dim' K ?sigma" using assms(3) by (simp add: add_mask_def fits_map_nd)
  have b: "binop_nd fdiv (error r) ?sigma = Inr (map2_nd fdiv (error r) ?sigma)"
    if "r \<in> set replicates" for r
  proof -
    from that assms(4) have "fits dim' K (error r)" by blast
    from fits_same_shape[OF this fs] show ?thesis by (simp add: binop_nd_def)
  qed
  have eq: "map (\<lambda>r. binop_nd fdiv (error r) ?sigma) replicates = map (\<lambda>r. Inr (map2_nd fdiv (error r) ?sigma)) replicates"
    by (intro map_cong) (auto simp: b)
  have c: "collect (map (\<lambda>r. binop_nd fdiv (error r) ?sigma) replicates) = Inr ?yi"
    by (simp only: eq collect_map_total)
  have fy: "\<forall>y\<in>set ?yi. fits dim' K y" using assms(4) fs by (auto intro: fits_map2_nd)
  from sort_slices_fits[OF fs fy] obtain ys where ys: "sort_slices ?sigma ?yi K = Inr ys"
    "length ys = length ?yi"
    "\<forall>n<length ?yi. fits dim' K (ys ! n)
                 \<and> (\<forall>c\<in>set (all_coords dim' K).
                       value_at (ys ! n) c = fsort (map (\<lambda>y. value_at y c) ?yi) ! n)" by blast
  have col: "map (\<lambda>y. value_at y c) ?yi = normalized_column replicates c"
    if "c \<in> set (all_coords dim' K)" for c
    unfolding normalized_column_def map_map comp_def
    using assms(4) fs that by (intro map_cong) (auto simp: value_at_map2_nd)
  have "OrderReplicates g replicates K = Inr ys"
    using c ys(1) assms(1) unfolding rs by (simp add: OrderReplicates_def Let_def)
  with ys(2,3) col show ?thesis by auto
qed

lemma value_at_in_entries:
  assumes "fits dim' K a" "c \<in> set (all_coords dim' K)"
  shows "value_at a c \<in> set (entries a)"
proof -
  from fits_dim[OF assms(1)] consider "dim' = 0" | "dim' = Suc 0" | "dim' = 2" by auto
  then show ?thesis
  proof cases
    case 1
    with assms show ?thesis by (auto simp: fits0 all_coords0)
  next
    case 2
    with assms show ?thesis by (auto simp: fits1 all_coords1)
  next
    case 3
    with assms obtain rows i j where s: "a = Mat rows" "c = C2 i j" "i < nat K" "j < nat K"
      "length rows = nat K" "\<forall>r\<in>set rows. length r = nat K"
      by (auto simp: fits2 all_coords2)
    then have "rows ! i \<in> set rows" "j < length (rows ! i)" by simp_all
    then have "rows ! i ! j \<in> set (concat rows)" by (metis in_set_conv_nth set_concat UN_iff)
    with s show ?thesis by simp
  qed
qed

lemma value_at_no_nan:
  assumes "fits dim' K a" "c \<in> set (all_coords dim' K)" "no_nan a"
  shows "\<exists>x. value_at a c = Fl x"
proof -
  from value_at_in_entries[OF assms(1,2)] assms(3) have "\<not> isnan (value_at a c)"
    by (simp add: no_nan_def list_all_iff)
  then show ?thesis by (cases "value_at a c") auto
qed

lemma value_at_add_mask:
  assumes "fits dim' K s" "c \<in> set (all_coords dim' K)"
  shows "value_at (add_mask s) c = fadd (value_at s c) (if feq0 (value_at s c) then Fl 1 else Fl 0)"
  unfolding add_mask_def by (rule value_at_map_nd[OF assms])

lemma valid_set_fits:
  assumes "valid_set replicates K" "r \<in> set replicates"
  shows "fits (ndim (estimated (hd replicates))) K (error r)"
    "fits (ndim (estimated (hd replicates))) K (destimated r)"
    "fits (ndim (estimated (hd replicates))) K (estimated r)"
  using assms by (cases replicates; auto simp: valid_set_def list_all_iff)+

lemma valid_set_nonempty: "valid_set replicates K \<Longrightarrow> replicates \<noteq> []"
  by (auto simp: valid_set_def)

lemma OrderReplicates_sorted:
  assumes "load_global g ''np'' = Inr ()" "valid_set replicates K"
    and "list_all (\<lambda>r. no_nan (error r)) replicates" "no_nan (destimated (hd replicates))"
  shows "\<exists>ys. OrderReplicates g replicates K = Inr ys \<and> length ys = length replicates
           \<and> (\<forall>c\<in>set (all_coords (ndim (estimated (hd replicates))) K).
                 \<forall>n. Suc n < length replicates \<longrightarrow>
                   (\<exists>a b. entry (ys ! n) c = Inr (Fl a) \<and> entry (ys ! Suc n) c = Inr (Fl b) \<and> a \<le> b))"
proof -
  let ?d = "ndim (estimated (hd replicates))"
  let ?s = "destimated (hd replicates)"
  have ne: "replicates \<noteq> []" by (rule valid_set_nonempty[OF assms(2)])
  then have h: "hd replicates \<in> set replicates" by simp
  have fs: "fits ?d K ?s" by (rule valid_set_fits(2)[OF assms(2) h])
  have fe: "\<forall>r\<in>set replicates. fits ?d K (error r)" using valid_set_fits(1)[OF assms(2)] by blast
  from OrderReplicates_valid[OF assms(1) ne fs fe] obtain ys where
    ys: "OrderReplicates g replicates K = Inr ys" "length ys = length replicates"
    "\<forall>n<length replicates. fits ?d K (ys ! n)
         \<and> (\<forall>c\<in>set (all_coords ?d K). value_at (ys ! n) c = fsort (normalized_column replicates c) ! n)"
    by blast
  have srt: "\<exists>a b. entry (ys ! n) c = Inr (Fl a) \<and> entry (ys ! Suc n) c = Inr (Fl b) \<and> a \<le> b"
    if c: "c \<in> set (all_coords ?d K)" and n: "Suc n < length replicates" for c n
  proof -
    from value_at_no_nan[OF fs c assms(4)] obtain s where s: "value_at ?s c = Fl s" by blast
    have m: "value_at (add_mask ?s) c = Fl (if s = 0 then 1 else s)"
      by (simp add: value_at_add_mask[OF fs c] s fadd_def)
    have "\<forall>x\<in>set (normalized_column replicates c). \<not> isnan x"
    proof
      fix x assume "x \<in> set (normalized_column replicates c)"
      then obtain r where r: "r \<in> set replicates" "x = fdiv (value_at (error r) c) (value_at (add_mask ?s) c)"
        by (auto simp: normalized_column_def)
      from r(1) assms(3) have "no_nan (error r)" by (simp add: list_all_iff)
      from value_at_no_nan[OF _ c this] fe r(1) obtain e where "value_at (error r) c = Fl e" by blast
      with r(2) m show "\<not> isnan x" by simp
    qed
    moreover have "Suc n < length (normalized_column replicates c)" using n by (simp add: normalized_column_def)
    ultimately obtain a b where ab: "fsort (normalized_column replicates c) ! n = Fl a"
      "fsort (normalized_column replicates c) ! Suc n = Fl b" "a \<le> b"
      using fsort_sorted by blast
    from n ys(3) c have "fits ?d K (ys ! n)" "value_at (ys ! n) c = fsort (normalized_column replicates c) ! n"
      "fits ?d K (ys ! Suc n)" "value_at (ys ! Suc n) c = fsort (normalized_column replicates c) ! Suc n"
      by simp_all
    with ab c show ?thesis by (simp add: entry_value_at)
  qed
  with ys(1,2) show ?thesis by blast
qed

lemma ad_loop_value:
  assumes "fits dim' K acc" "\<forall>y\<in>set ys. fits dim' K y"
  shows "fits dim' K (ad_loop N i ys acc)
     \<and> (\<forall>c\<in>set (all_coords dim' K).
           value_at (ad_loop N i ys acc) c = ad_sum N i (map (\<lambda>y. value_at y c) ys) (value_at acc c))"
  using assms
proof (induction ys arbitrary: i acc)
  case Nil
  then show ?case by simp
next
  case (Cons y ys)
  then have fy: "fits dim' K y" and rest: "\<forall>y\<in>set ys. fits dim' K y" by simp_all
  let ?acc = "map2_nd fadd acc (map_nd (ad_term N i) y)"
  have ft: "fits dim' K (map_nd (ad_term N i) y)" using fy by (simp add: fits_map_nd)
  have fa: "fits dim' K ?acc" by (rule fits_map2_nd[OF Cons.prems(1) ft])
  have va: "value_at ?acc c = fadd (value_at acc c) (ad_term N i (value_at y c))"
    if "c \<in> set (all_coords dim' K)" for c
    by (simp add: value_at_map2_nd[OF Cons.prems(1) ft that] value_at_map_nd[OF fy that])
  from Cons.IH[OF fa rest, of "Suc i"] va show ?case by simp
qed

lemma AndersonDarling_valid:
  assumes "load_global g ''np'' = Inr ()" "load_global g ''OrderReplicates'' = Inr ()"
    "load_global g ''scipy'' = Inr ()"
    and "replicates \<noteq> []" "dim' = 1 \<or> dim' = 2"
    and "fits dim' K (destimated (hd replicates))" "\<forall>r\<in>set replicates. fits dim' K (error r)"
  shows "\<exists>A2. AndersonDarling g replicates K = Inr A2 \<and> fits dim' K A2
           \<and> (\<forall>c\<in>set (all_coords dim' K).
                 value_at A2 c =
                   (if feq0 (value_at (destimated (hd replicates)) c) then Fl 0
                    else ad_statistic (length replicates) (fsort (normalized_column replicates c))))"
proof -
  let ?N = "length replicates"
  let ?s = "destimated (hd replicates)"
  from assms(4) obtain r0 rest where rs: "replicates = r0 # rest" by (cases replicates) auto
  from OrderReplicates_valid[OF assms(1,4,6,7)] obtain ys where
    ys: "OrderReplicates g replicates K = Inr ys" "length ys = ?N"
    "\<forall>n<?N. fits dim' K (ys ! n)
         \<and> (\<forall>c\<in>set (all_coords dim' K). value_at (ys ! n) c = fsort (normalized_column replicates c) ! n)"
    by blast
  have fy: "\<forall>y\<in>set ys. fits dim' K y"
    using ys(2,3) by (auto simp: in_set_conv_nth)
  have col: "map (\<lambda>y. value_at y c) ys = fsort (normalized_column replicates c)"
    if c: "c \<in> set (all_coords dim' K)" for c
  proof (rule nth_equalityI)
    show "length (map (\<lambda>y. value_at y c) ys) = length (fsort (normalized_column replicates c))"
      using ys(2) by (simp add: length_fsort normalized_column_def)
    fix n assume "n < length (map (\<lambda>y. value_at y c) ys)"
    with ys(2,3) c show "map (\<lambda>y. value_at y c) ys ! n = fsort (normalized_column replicates c) ! n"
      by simp
  qed
  let ?zeros = "map_nd (\<lambda>x. Fl 0) ?s"
  let ?sum = "ad_loop ?N 0 ys ?zeros"
  let ?h = "\<lambda>v. fsub (Fl (- real ?N)) (fdiv v (Fl (real ?N)))"
  let ?raw = "map_nd ?h ?sum"
  let ?A2 = "map2_nd (\<lambda>z a. if feq0 z then Fl 0 else a) ?s ?raw"
  have fz: "fits dim' K ?zeros" using assms(6) by (simp add: fits_map_nd)
  from ad_loop_value[OF fz fy, of ?N 0] have
    fsum: "fits dim' K ?sum" and
    vsum: "\<forall>c\<in>set (all_coords dim' K).
             value_at ?sum c = ad_sum ?N 0 (map (\<lambda>y. value_at y c) ys) (value_at ?zeros c)"
    by blast+
  have fraw: "fits dim' K ?raw" using fsum by (simp add: fits_map_nd)
  have fA: "fits dim' K ?A2" by (rule fits_map2_nd[OF assms(6) fraw])
  have vA: "value_at ?A2 c =
              (if feq0 (value_at ?s c) then Fl 0
               else ad_statistic ?N (fsort (normalized_column replicates c)))"
    if c: "c \<in> set (all_coords dim' K)" for c
  proof -
    have "value_at ?zeros c = Fl 0" by (simp add: value_at_map_nd[OF assms(6) c])
    with vsum c col[OF c] have "value_at ?sum c = ad_sum ?N 0 (fsort (normalized_column replicates c)) (Fl 0)"
      by simp
    then have "value_at ?raw c = ad_statistic ?N (fsort (normalized_column replicates c))"
      by (simp add: value_at_map_nd[OF fsum c] ad_statistic_def)
    then show ?thesis by (simp add: value_at_map2_nd[OF assms(6) fraw c])
  qed
  have ns: "\<not> (\<exists>v. ?raw = Scalar v)"
  proof
    assume "\<exists>v. ?raw = Scalar v"
    then obtain v where "?raw = Scalar v" by blast
    with fraw have "dim' = 0" by (simp add: fits_def)
    with assms(5) show False by simp
  qed
  have "AndersonDarling g replicates K = Inr ?A2"
  proof (cases ?raw)
    case (Scalar v)
    with ns show ?thesis by blast
  next
    case (Vec xs)
    then show ?thesis using ys(1) assms(1,2,3) unfolding rs
      by (simp add: AndersonDarling_def Let_def)
  next
    case (Mat rows)
    then show ?thesis using ys(1) assms(1,2,3) unfolding rs
      by (simp add: AndersonDarling_def Let_def)
  next
    case (Higher a b c r xs)
    then show ?thesis using ys(1) assms(1,2,3) unfolding rs
      by (simp add: AndersonDarling_def Let_def)
  qed
  with fA vA show ?thesis by blast
qed

lemma AndersonDarling_zero_sigma:
  assumes "load_global g ''np'' = Inr ()" "load_global g ''OrderReplicates'' = Inr ()"
    "load_global g ''scipy'' = Inr ()"
    and "valid_set replicates K" "ndim (estimated (hd replicates)) \<noteq> 0"
  shows "\<exists>A2. AndersonDarling g replicates K = Inr A2
           \<and> (\<forall>c\<in>set (all_coords (ndim (estimated (hd replicates))) K).
                 entry (destimated (hd replicates)) c = Inr (Fl 0) \<longrightarrow> entry A2 c = Inr (Fl 0))"
proof -
  let ?d = "ndim (estimated (hd replicates))"
  have ne: "replicates \<noteq> []" by (rule valid_set_nonempty[OF assms(4)])
  then have h: "hd replicates \<in> set replicates" by simp
  have fs: "fits ?d K (destimated (hd replicates))" by (rule valid_set_fits(2)[OF assms(4) h])
  have fe: "\<forall>r\<in>set replicates. fits ?d K (error r)" using valid_set_fits(1)[OF assms(4)] by blast
  from fits_dim[OF fs] assms(5) have d: "?d = 1 \<or> ?d = 2" by auto
  from AndersonDarling_valid[OF assms(1,2,3) ne d fs fe] obtain A2 where
    A: "AndersonDarling g replicates K = Inr A2" "fits ?d K A2"
    "\<forall>c\<in>set (all_coords ?d K). value_at A2 c =
        (if feq0 (value_at (destimated (hd replicates)) c) then Fl 0
         else ad_statistic (length replicates) (fsort (normalized_column replicates c)))" by blast
  have "entry A2 c = Inr (Fl 0)"
    if c: "c \<in> set (all_coords ?d K)" and z: "entry (destimated (hd replicates)) c = Inr (Fl 0)" for c
  proof -
    from z have "value_at (destimated (hd replicates)) c = Fl 0" by (simp add: entry_value_at[OF fs c])
    with A(3) c have "value_at A2 c = Fl 0" by simp
    then show ?thesis by (simp add: entry_value_at[OF A(2) c])
  qed
  with A(1) show ?thesis by blast
qed

lemma AndersonDarling_scalar:
  assumes "load_global g ''np'' = Inr ()" "load_global g ''OrderReplicates'' = Inr ()"
    "load_global g ''scipy'' = Inr ()"
    and "replicates \<noteq> []" "fits 0 K (destimated (hd replicates))" "\<forall>r\<in>set replicates. fits 0 K (error r)"
  shows "AndersonDarling g replicates K = Inl TypeError"
proof -
  let ?N = "length replicates"
  let ?s = "destimated (hd replicates)"
  from assms(4) obtain r0 rest where rs: "replicates = r0 # rest" by (cases replicates) auto
  from OrderReplicates_valid[OF assms(1,4,5,6)] obtain ys where
    ys: "OrderReplicates g replicates K = Inr ys" "length ys = ?N"
    "\<forall>n<?N. fits 0 K (ys ! n)
         \<and> (\<forall>c\<in>set (all_coords 0 K). value_at (ys ! n) c = fsort (normalized_column replicates c) ! n)"
    by blast
  have fy: "\<forall>y\<in>set ys. fits 0 K y"
    using ys(2,3) by (auto simp: in_set_conv_nth)
  have fz: "fits 0 K (map_nd (\<lambda>x. Fl 0) ?s)" using assms(5) by (simp add: fits_map_nd)
  from ad_loop_value[OF fz fy, of ?N 0] have "fits 0 K (ad_loop ?N 0 ys (map_nd (\<lambda>x. Fl 0) ?s))" by blast
  then have "fits 0 K (map_nd (\<lambda>v. fsub (Fl (- real ?N)) (fdiv v (Fl (real ?N))))
                  (ad_loop ?N 0 ys (map_nd (\<lambda>x. Fl 0) ?s)))" by (simp add: fits_map_nd)
  then obtain v where "map_nd (\<lambda>v. fsub (Fl (- real ?N)) (fdiv v (Fl (real ?N))))
                  (ad_loop ?N 0 ys (map_nd (\<lambda>x. Fl 0) ?s)) = Scalar v" by (auto simp: fits0)
  then show ?thesis using ys(1) assms(1,2,3) unfolding rs
    by (simp add: AndersonDarling_def Let_def)
qed

lemma feq0_rescale: "k \<noteq> 0 \<Longrightarrow> feq0 (fmul (Fl k) v) = feq0 v"
  by (cases v) (simp_all add: fmul_def)

lemma ratio_rescale:
  assumes "k \<noteq> 0" "\<not> feq0 s"
  shows "fdiv (fmul (Fl k) e) (fadd (fmul (Fl k) s) (if feq0 (fmul (Fl k) s) then Fl 1 else Fl 0))
         = fdiv e (fadd s (if feq0 s then Fl 1 else Fl 0))"
  using assms by (cases e; cases s) (simp_all add: fmul_def fadd_def)

lemma hd_map_rescale: "replicates \<noteq> [] \<Longrightarrow> hd (map (rescale k) replicates) = rescale k (hd replicates)"
  by (cases replicates) simp_all

lemma AndersonDarling_rescale:
  assumes "load_global g ''np'' = Inr ()" "load_global g ''OrderReplicates'' = Inr ()"
    "load_global g ''scipy'' = Inr ()"
    and "valid_set replicates K" "k \<noteq> 0"
  shows "AndersonDarling g (map (rescale k) replicates) K = AndersonDarling g replicates K"
proof -
  let ?d = "ndim (estimated (hd replicates))"
  let ?rs' = "map (rescale k) replicates"
  let ?s = "destimated (hd replicates)"
  let ?s' = "destimated (hd ?rs')"
  have ne: "replicates \<noteq> []" by (rule valid_set_nonempty[OF assms(4)])
  then have h: "hd replicates \<in> set replicates" and ne': "?rs' \<noteq> []" by simp_all
  have fs: "fits ?d K ?s" by (rule valid_set_fits(2)[OF assms(4) h])
  have fe: "\<forall>r\<in>set replicates. fits ?d K (error r)" using valid_set_fits(1)[OF assms(4)] by blast
  have s': "?s' = map_nd (fmul (Fl k)) ?s" by (simp add: hd_map_rescale[OF ne] rescale_def)
  have fs': "fits ?d K ?s'" using fs by (simp add: s' fits_map_nd)
  have fe': "\<forall>r\<in>set ?rs'. fits ?d K (error r)" using fe by (auto simp: rescale_def fits_map_nd)
  from fits_dim[OF fs] consider "?d = 0" | "?d = 1 \<or> ?d = 2" by auto
  then show ?thesis
  proof cases
    case 1
    from AndersonDarling_scalar[OF assms(1,2,3) ne] fs fe 1
    have "AndersonDarling g replicates K = Inl TypeError" by simp
    moreover from AndersonDarling_scalar[OF assms(1,2,3) ne'] fs' fe' 1
    have "AndersonDarling g ?rs' K = Inl TypeError" by simp
    ultimately show ?thesis by simp
  next
    case 2
    from AndersonDarling_valid[OF assms(1,2,3) ne 2 fs fe] obtain A2 where
      A: "AndersonDarling g replicates K = Inr A2" "fits ?d K A2"
      "\<forall>c\<in>set (all_coords ?d K). value_at A2 c =
          (if feq0 (value_at ?s c) then Fl 0
           else ad_statistic (length replicates) (fsort (normalized_column replicates c)))" by blast
    from AndersonDarling_valid[OF assms(1,2,3) ne' 2 fs' fe'] obtain A2' where
      A': "AndersonDarling g ?rs' K = Inr A2'" "fits ?d K A2'"
      "\<forall>c\<in>set (all_coords ?d K). value_at A2' c =
          (if feq0 (value_at ?s' c) then Fl 0
           else ad_statistic (length ?rs') (fsort (normalized_column ?rs' c)))" by blast
    have "value_at A2' c = value_at A2 c" if c: "c \<in> set (all_coords ?d K)" for c
    proof -
      have vs': "value_at ?s' c = fmul (Fl k) (value_at ?s c)"
        by (simp add: s' value_at_map_nd[OF fs c])
      show ?thesis
      proof (cases "feq0 (value_at ?s c)")
        case True
        with A(3) A'(3) c vs' assms(5) show ?thesis by (simp add: feq0_rescale)
      next
        case False
        have "normalized_column ?rs' c = normalized_column replicates c"
          unfolding normalized_column_def map_map comp_def
        proof (intro map_cong refl)
          fix r assume r: "r \<in> set replicates"
          with fe have fr: "fits ?d K (error r)" by blast
          have "value_at (error (rescale k r)) c = fmul (Fl k) (value_at (error r) c)"
            by (simp add: rescale_def value_at_map_nd[OF fr c])
          moreover have "value_at (add_mask ?s') c
              = fadd (fmul (Fl k) (value_at ?s c)) (if feq0 (fmul (Fl k) (value_at ?s c)) then Fl 1 else Fl 0)"
            by (simp add: value_at_add_mask[OF fs' c] vs')
          moreover have "value_at (add_mask ?s) c
              = fadd (value_at ?s c) (if feq0 (value_at ?s c) then Fl 1 else Fl 0)"
            by (rule value_at_add_mask[OF fs c])
          ultimately show "fdiv (value_at (error (rescale k r)) c) (value_at (add_mask ?s') c)
                = fdiv (value_at (error r) c) (value_at (add_mask ?s) c)"
            using ratio_rescale[OF assms(5) False] by simp
        qed
        with A(3) A'(3) c vs' assms(5) False show ?thesis by (simp add: feq0_rescale)
      qed
    qed
    with fits_ext[OF A'(2) A(2)] have "A2' = A2" by blast
    with A(1) A'(1) show ?thesis by simp
  qed
qed

lemma ad_statistic_single:
  assumes "0 < norm_cdf y" "norm_cdf y < 1"
  shows "ad_statistic 1 [Fl y] = Fl (- 1 - (- ln (norm_cdf y) + 3 * ln (1 - norm_cdf y)))"
    and "classical_statistic 1 [Fl y] = Fl (- 1 - (ln (norm_cdf y) + ln (1 - norm_cdf y)))"
  using assms
  by (simp_all add: ad_statistic_def classical_statistic_def ad_term_def fadd_def fsub_def fmul_def)

section \<open>The normaliser and the goodness-of-fit test as shipped\<close>

text \<open>
  Claim C7, where the code departs from it. On two vector replicates OrderReplicates
  ends with NameError and returns no order statistics at all. Once \<^verbatim>\<open>np\<close> is bound
  the same call returns the two slices with every coordinate sorted across the
  replicates, as \<open>OrderReplicates_sorted\<close> shows of every ReplicateSet of the data
  model without NaN.
\<close>

theorem OrderReplicates_never_sorts:
  "OrderReplicates module_globals
     [\<lparr>estimated = Vec [Fl 1, Fl 2], error = Vec [Fl (1/2), Fl 3], destimated = Vec [Fl 1, Fl 1]\<rparr>,
      \<lparr>estimated = Vec [Fl 1, Fl 2], error = Vec [Fl (-1/2), Fl 2], destimated = Vec [Fl 1, Fl 1]\<rparr>] 2
   = Inl (NameError ''np'')
   \<and> OrderReplicates (''np'' # module_globals)
     [\<lparr>estimated = Vec [Fl 1, Fl 2], error = Vec [Fl (1/2), Fl 3], destimated = Vec [Fl 1, Fl 1]\<rparr>,
      \<lparr>estimated = Vec [Fl 1, Fl 2], error = Vec [Fl (-1/2), Fl 2], destimated = Vec [Fl 1, Fl 1]\<rparr>] 2
   = Inr [Vec [Fl (- (1/2)), Fl 2], Vec [Fl (1/2), Fl 3]]"
  by (simp add: OrderReplicates_def load_np load_np_missing add_mask_def binop_nd_def sort_slices_def
      fadd_def fsort_def column1_def upt_2)

text \<open>
  Claim C1, where the code departs from it. AndersonDarling ends with NameError. Once
  \<^verbatim>\<open>np\<close> is bound, the single replicate of this set, whose rank is 1, enters the sum
  with the weights \<open>2 * 0 - 1 = - 1\<close> and \<open>2 * (1 - 0) + 1 = 3\<close> of the loop index 0;
  the statistic of the specification gives rank 1 the weights \<open>2 * 1 - 1 = 1\<close> and
  \<open>2 * (1 - 1) + 1 = 1\<close>, and the two values differ.
\<close>

theorem AndersonDarling_weights_from_zero:
  "AndersonDarling module_globals
     [\<lparr>estimated = Vec [Fl 0], error = Vec [Fl (sqrt 2 / 2)], destimated = Vec [Fl 1]\<rparr>] 1
   = Inl (NameError ''np'')
   \<and> AndersonDarling (''np'' # module_globals)
     [\<lparr>estimated = Vec [Fl 0], error = Vec [Fl (sqrt 2 / 2)], destimated = Vec [Fl 1]\<rparr>] 1
   = Inr (Vec [Fl (- 1 - (- ln (norm_cdf (sqrt 2 / 2)) + 3 * ln (1 - norm_cdf (sqrt 2 / 2))))])
   \<and> classical_statistic 1 [Fl (sqrt 2 / 2)]
   = Fl (- 1 - (ln (norm_cdf (sqrt 2 / 2)) + ln (1 - norm_cdf (sqrt 2 / 2))))
   \<and> - 1 - (- ln (norm_cdf (sqrt 2 / 2)) + 3 * ln (1 - norm_cdf (sqrt 2 / 2)))
   \<noteq> - 1 - (ln (norm_cdf (sqrt 2 / 2)) + ln (1 - norm_cdf (sqrt 2 / 2)))"
proof -
  let ?c = "norm_cdf (sqrt 2 / 2)"
  have c: "0 < ?c" "?c < 1" "?c \<noteq> 1 - ?c" using norm_cdf_range by simp_all
  have a: "AndersonDarling module_globals
     [\<lparr>estimated = Vec [Fl 0], error = Vec [Fl (sqrt 2 / 2)], destimated = Vec [Fl 1]\<rparr>] 1
   = Inl (NameError ''np'')"
    by (simp add: AndersonDarling_def OrderReplicates_def load_np_missing load_OrderReplicates)
  have b: "AndersonDarling (''np'' # module_globals)
     [\<lparr>estimated = Vec [Fl 0], error = Vec [Fl (sqrt 2 / 2)], destimated = Vec [Fl 1]\<rparr>] 1
   = Inr (Vec [Fl (- 1 - (- ln ?c + 3 * ln (1 - ?c)))])"
    using c(1,2)
    by (simp add: AndersonDarling_def OrderReplicates_def load_np load_np_missing load_scipy
      load_OrderReplicates add_mask_def binop_nd_def sort_slices_def fsort_def column1_def
      ad_term_def fadd_def fsub_def fmul_def Let_def)
  have "ln ?c \<noteq> ln (1 - ?c)" using c by (simp add: ln_inj_iff)
  then have d: "- 1 - (- ln ?c + 3 * ln (1 - ?c)) \<noteq> - 1 - (ln ?c + ln (1 - ?c))" by simp
  from a b ad_statistic_single(2)[OF c(1,2)] d show ?thesis by simp
qed

text \<open>
  Claim C10, where the code departs from it. On the vector set whose replicate 0 has
  \<^verbatim>\<open>destimated = [0, 1]\<close> AndersonDarling ends with NameError and returns no
  statistic. Once \<^verbatim>\<open>np\<close> is bound the statistic at coordinate 0 is exactly 0, as
  \<open>AndersonDarling_zero_sigma\<close> shows of every vector and matrix ReplicateSet of the
  data model.
\<close>

theorem AndersonDarling_zero_sigma_unreached:
  "AndersonDarling module_globals
     [\<lparr>estimated = Vec [Fl 1, Fl 2], error = Vec [Fl 5, Fl 1], destimated = Vec [Fl 0, Fl 1]\<rparr>,
      \<lparr>estimated = Vec [Fl 1, Fl 2], error = Vec [Fl 7, Fl (- 1)], destimated = Vec [Fl 0, Fl 1]\<rparr>] 2
   = Inl (NameError ''np'')
   \<and> (case AndersonDarling (''np'' # module_globals)
     [\<lparr>estimated = Vec [Fl 1, Fl 2], error = Vec [Fl 5, Fl 1], destimated = Vec [Fl 0, Fl 1]\<rparr>,
      \<lparr>estimated = Vec [Fl 1, Fl 2], error = Vec [Fl 7, Fl (- 1)], destimated = Vec [Fl 0, Fl 1]\<rparr>] 2
      of Inl e \<Rightarrow> Inl e | Inr A2 \<Rightarrow> entry A2 (C1 0)) = Inr (Fl 0)"
  by (simp add: AndersonDarling_def OrderReplicates_def load_np load_np_missing load_scipy
      load_OrderReplicates add_mask_def binop_nd_def sort_slices_def fsort_def column1_def
      fadd_def upt_2 del: flog.simps)

text \<open>
  Claim C9, where the code departs from it. AndersonDarling ends with NameError on a
  vector set and on the same set with every \<^verbatim>\<open>error\<close> and \<^verbatim>\<open>destimated\<close> multiplied
  by 3, so no statistic is returned for either. Once \<^verbatim>\<open>np\<close> is bound the two calls
  return the same statistic, as \<open>AndersonDarling_rescale\<close> shows of every ReplicateSet
  of the data model and every multiplier other than 0.
\<close>

theorem AndersonDarling_rescaled_unreached:
  "AndersonDarling module_globals
     [\<lparr>estimated = Vec [Fl 1, Fl 2], error = Vec [Fl 5, Fl 1], destimated = Vec [Fl 0, Fl 2]\<rparr>,
      \<lparr>estimated = Vec [Fl 1, Fl 2], error = Vec [Fl 7, Fl (- 1)], destimated = Vec [Fl 0, Fl 2]\<rparr>] 2
   = Inl (NameError ''np'')
   \<and> AndersonDarling module_globals
     [\<lparr>estimated = Vec [Fl 1, Fl 2], error = Vec [Fl 15, Fl 3], destimated = Vec [Fl 0, Fl 6]\<rparr>,
      \<lparr>estimated = Vec [Fl 1, Fl 2], error = Vec [Fl 21, Fl (- 3)], destimated = Vec [Fl 0, Fl 6]\<rparr>] 2
   = Inl (NameError ''np'')
   \<and> AndersonDarling (''np'' # module_globals)
     [\<lparr>estimated = Vec [Fl 1, Fl 2], error = Vec [Fl 15, Fl 3], destimated = Vec [Fl 0, Fl 6]\<rparr>,
      \<lparr>estimated = Vec [Fl 1, Fl 2], error = Vec [Fl 21, Fl (- 3)], destimated = Vec [Fl 0, Fl 6]\<rparr>] 2
   = AndersonDarling (''np'' # module_globals)
     [\<lparr>estimated = Vec [Fl 1, Fl 2], error = Vec [Fl 5, Fl 1], destimated = Vec [Fl 0, Fl 2]\<rparr>,
      \<lparr>estimated = Vec [Fl 1, Fl 2], error = Vec [Fl 7, Fl (- 1)], destimated = Vec [Fl 0, Fl 2]\<rparr>] 2"
  by (simp add: AndersonDarling_def OrderReplicates_def load_np load_np_missing load_scipy
      load_OrderReplicates add_mask_def binop_nd_def sort_slices_def fsort_def column1_def
      fadd_def upt_2 del: flog.simps)

section \<open>The counting loops\<close>

lemma entry_fits:
  assumes "fits dim' K a" and "c \<in> set (coords dim' K)"
  shows "\<exists>x. entry a c = Inr x \<and> x \<in> set (entries a)"
proof (cases a)
  case (Scalar x)
  with assms show ?thesis by (auto simp: fits_def coords_def split: if_splits)
next
  case (Vec xs)
  with assms show ?thesis by (auto simp: fits_def coords_def split: if_splits)
next
  case (Mat rows)
  with assms have d: "dim' = 2" and l: "int (length rows) = K"
    and a: "\<forall>row\<in>set rows. int (length row) = K"
    by (auto simp: fits_def list_all_iff)
  from assms(2) d obtain i j where c: "c = C2 i j" and ij: "j < i" "i < nat K"
    by (auto simp: coords_def)
  from ij l have i: "i < length rows" by simp
  with a have "int (length (rows ! i)) = K" by simp
  with ij have j: "j < length (rows ! i)" by simp
  have "rows ! i ! j \<in> set (concat rows)"
    using i j by (metis in_set_conv_nth set_concat UN_iff)
  with Mat c i j show ?thesis by simp
next
  case (Higher a b c r xs)
  with assms show ?thesis by (simp add: fits_def)
qed

lemma good_entryI:
  assumes "fits dim' K (error r)" "fits dim' K (destimated r)" "no_nan (error r)" "no_nan (destimated r)"
    and "c \<in> set (coords dim' K)"
  shows "good_entry r c"
proof -
  from entry_fits[OF assms(1,5)] obtain x where x: "entry (error r) c = Inr x" "x \<in> set (entries (error r))" by blast
  from entry_fits[OF assms(2,5)] obtain y where y: "entry (destimated r) c = Inr y" "y \<in> set (entries (destimated r))" by blast
  from x(2) assms(3) have "\<not> isnan x" by (simp add: no_nan_def list_all_iff)
  then obtain e where e: "x = Fl e" by (cases x) auto
  from y(2) assms(4) have "\<not> isnan y" by (simp add: no_nan_def list_all_iff)
  then obtain d where d: "y = Fl d" by (cases y) auto
  show ?thesis unfolding good_entry_def using x y e d by blast
qed

lemma nonneg_entryI:
  assumes "fits dim' K (destimated r)" "nonneg (destimated r)" "c \<in> set (coords dim' K)"
  shows "nonneg_entry r c"
proof -
  from entry_fits[OF assms(1,3)] obtain y where y: "entry (destimated r) c = Inr y" "y \<in> set (entries (destimated r))" by blast
  from y(2) assms(2) have "fle (Fl 0) y" by (simp add: nonneg_def list_all_iff)
  then obtain d where d: "y = Fl d" "0 \<le> d" by (cases y) auto
  show ?thesis unfolding nonneg_entry_def using y d by blast
qed

lemma nonneg_no_nan: "nonneg a \<Longrightarrow> no_nan a"
  unfolding nonneg_def no_nan_def list_all_iff
proof
  fix x assume a: "\<forall>x\<in>set (entries a). fle (Fl 0) x" and x: "x \<in> set (entries a)"
  then have "fle (Fl 0) x" by blast
  then show "\<not> isnan x" by (cases x) auto
qed

lemma test_entry_good:
  assumes "good_entry r c"
  shows "test_entry alpha r c = Within \<or> test_entry alpha r c = Outside"
proof -
  from assms obtain e d where "entry (error r) c = Inr (Fl e)" "entry (destimated r) c = Inr (Fl d)"
    by (auto simp: good_entry_def)
  then show ?thesis by (simp add: test_entry_def fabs_def fmul_def)
qed

lemma test_entry_mono:
  assumes "good_entry r c" "nonneg_entry r c" "alpha \<le> alpha'" "test_entry alpha r c = Within"
  shows "test_entry alpha' r c = Within"
proof -
  from assms(1,2) obtain e d where ed: "entry (error r) c = Inr (Fl e)" "entry (destimated r) c = Inr (Fl d)" "0 \<le> d"
    by (auto simp: good_entry_def nonneg_entry_def)
  from assms(4) ed have "\<bar>e\<bar> \<le> alpha * d"
    by (simp add: test_entry_def fabs_def fmul_def split: if_splits)
  also have "alpha * d \<le> alpha' * d" using assms(3) ed(3) by (simp add: mult_right_mono)
  finally show ?thesis using ed by (simp add: test_entry_def fabs_def fmul_def)
qed

lemma count_coords_good:
  assumes "\<forall>c\<in>set cs. good_entry r c"
  shows "count_coords alpha dim' idx r cs (a, b) =
         Inr (a + real (hits alpha r cs), b + real (length cs - hits alpha r cs))"
  using assms
proof (induction cs arbitrary: a b)
  case Nil
  then show ?case by (simp add: hits_def)
next
  case (Cons c cs)
  then have g: "good_entry r c" and rest: "\<forall>c\<in>set cs. good_entry r c" by auto
  have le: "hits alpha r cs \<le> length cs" by (simp add: hits_def)
  from test_entry_good[OF g, of alpha] show ?case
  proof
    assume w: "test_entry alpha r c = Within"
    then show ?thesis using Cons.IH[OF rest] le by (simp add: hits_def)
  next
    assume w: "test_entry alpha r c = Outside"
    then show ?thesis using Cons.IH[OF rest] le by (simp add: hits_def Suc_diff_le)
  qed
qed

lemma hits_mono:
  assumes "\<forall>c\<in>set cs. good_entry r c \<and> nonneg_entry r c" "alpha \<le> alpha'"
  shows "hits alpha r cs \<le> hits alpha' r cs"
  using assms(1)
proof (induction cs)
  case Nil
  then show ?case by (simp add: hits_def)
next
  case (Cons c cs)
  then have g: "good_entry r c" "nonneg_entry r c" and ih: "hits alpha r cs \<le> hits alpha' r cs" by auto
  from test_entry_mono[OF g assms(2)] ih show ?case by (auto simp: hits_def)
qed

lemma count_replicates_good:
  assumes "\<forall>r\<in>set rs. \<forall>c\<in>set (coords dim' K). good_entry r c"
  shows "count_replicates alpha dim' K idx rs (a, b) =
         Inr (a + real (total_hits alpha dim' K rs),
              b + real (length rs * length (coords dim' K) - total_hits alpha dim' K rs))"
  using assms
proof (induction rs arbitrary: a b idx)
  case Nil
  then show ?case by (simp add: total_hits_def)
next
  case (Cons r rs)
  then have g: "\<forall>c\<in>set (coords dim' K). good_entry r c"
    and rest: "\<forall>r\<in>set rs. \<forall>c\<in>set (coords dim' K). good_entry r c" by auto
  have le1: "hits alpha r (coords dim' K) \<le> length (coords dim' K)" by (simp add: hits_def)
  have le2: "total_hits alpha dim' K rs \<le> length rs * length (coords dim' K)"
    unfolding total_hits_def
  proof (induction rs)
    case Nil then show ?case by simp
  next
    case (Cons x xs)
    have "hits alpha x (coords dim' K) \<le> length (coords dim' K)" by (simp add: hits_def)
    with Cons show ?case by simp
  qed
  show ?case
    using le1 le2
    by (simp add: count_coords_good[OF g] Cons.IH[OF rest] total_hits_def of_nat_diff)
qed

lemma total_hits_mono:
  assumes "\<forall>r\<in>set rs. \<forall>c\<in>set (coords dim' K). good_entry r c \<and> nonneg_entry r c" "alpha \<le> alpha'"
  shows "total_hits alpha dim' K rs \<le> total_hits alpha' dim' K rs"
  using assms(1)
proof (induction rs)
  case Nil
  then show ?case by (simp add: total_hits_def)
next
  case (Cons r rs)
  then have "hits alpha r (coords dim' K) \<le> hits alpha' r (coords dim' K)"
    using hits_mono[OF _ assms(2)] by simp
  with Cons show ?case by (simp add: total_hits_def add_mono)
qed

lemma alpha_loop_good:
  assumes "\<forall>r\<in>set rs. \<forall>c\<in>set (coords dim' K). good_entry r c"
    and "load_global g ''scipy'' = Inr ()"
  shows "alpha_loop g dim' K rs als =
         Inr (map (\<lambda>alpha. (1 + real (total_hits alpha dim' K rs),
                            1 + real (length rs * length (coords dim' K) - total_hits alpha dim' K rs))) als)"
  by (induction als) (simp_all add: count_replicates_good[OF assms(1)] assms(2))

lemma total_hits_le:
  "total_hits alpha dim' K rs \<le> length rs * length (coords dim' K)"
  unfolding total_hits_def
proof (induction rs)
  case Nil then show ?case by simp
next
  case (Cons x xs)
  have "hits alpha x (coords dim' K) \<le> length (coords dim' K)" by (simp add: hits_def)
  with Cons show ?case by simp
qed

lemma alpha_values_length: "length alpha_values = nalpha"
  by (simp add: alpha_values_def)

lemma alpha_values_mono:
  assumes "m \<le> m'" "m' < nalpha"
  shows "alpha_values ! m \<le> alpha_values ! m'"
  using assms by (simp add: alpha_values_def nalpha_def min_alpha_def max_alpha_def)

lemma collect_map_Inr:
  assumes "\<forall>x\<in>set xs. \<exists>v. f x = Inr v"
  shows "\<exists>vs. collect (map f xs) = Inr vs"
  using assms
proof (induction xs)
  case Nil
  then show ?case by simp
next
  case (Cons x xs)
  then obtain v vs where "f x = Inr v" "collect (map f xs) = Inr vs" by auto
  then show ?case by simp
qed

lemma fill_row_fits:
  assumes "dim' \<le> 2" "fits dim' K a"
  shows "\<exists>v. fill_row dim' K a = Inr v"
  using assms by (cases a) (auto simp: fill_row_def fits_def)

lemma summary_statistics_valid:
  assumes "valid_set rs K"
  shows "\<exists>st. summary_statistics (ndim (estimated (hd rs))) K rs = Inr st"
proof -
  from assms obtain r0 rest where rs: "rs = r0 # rest" by (cases rs) (auto simp: valid_set_def)
  let ?d = "ndim (estimated r0)"
  from assms rs have d: "?d \<le> 2" and k: "?d = 0 \<or> 1 \<le> K"
    and f: "\<forall>r\<in>set rs. fits ?d K (estimated r) \<and> fits ?d K (error r) \<and> fits ?d K (destimated r)"
    by (auto simp: valid_set_def list_all_iff)
  let ?f = "\<lambda>r. case fill_row ?d K (estimated r) of
                   Inl e \<Rightarrow> Inl e
                 | Inr v \<Rightarrow>
                     (case fill_row ?d K (error r) of
                        Inl e \<Rightarrow> Inl e
                      | Inr ve \<Rightarrow>
                          (case fill_row ?d K (destimated r) of
                             Inl e \<Rightarrow> Inl e
                           | Inr vs \<Rightarrow> Inr (v, ve, vs)))"
  have "\<forall>r\<in>set rs. \<exists>v. ?f r = Inr v"
  proof
    fix r assume "r \<in> set rs"
    with f have "fits ?d K (estimated r)" "fits ?d K (error r)" "fits ?d K (destimated r)" by auto
    from fill_row_fits[OF d this(1)] fill_row_fits[OF d this(2)] fill_row_fits[OF d this(3)]
    obtain a b c where "fill_row ?d K (estimated r) = Inr a" "fill_row ?d K (error r) = Inr b"
      "fill_row ?d K (destimated r) = Inr c" by blast
    then show "\<exists>v. ?f r = Inr v" by simp
  qed
  from collect_map_Inr[OF this] obtain rows where "collect (map ?f rs) = Inr rows" by blast
  with d k show ?thesis unfolding rs
    by (auto simp: summary_statistics_def Let_def)
qed

lemma summary_lines_valid:
  assumes "dim' = 0 \<or> 1 \<le> K"
  shows "snd (summary_lines dim' K st) = Inr ()"
  using assms by (auto simp: summary_lines_def)

lemma valid_good:
  assumes "valid_set rs K" "list_all (\<lambda>r. no_nan (error r) \<and> no_nan (destimated r)) rs"
  shows "\<forall>r\<in>set rs. \<forall>c\<in>set (coords (ndim (estimated (hd rs))) K). good_entry r c"
proof (intro ballI)
  fix r c assume r: "r \<in> set rs" and c: "c \<in> set (coords (ndim (estimated (hd rs))) K)"
  from assms(1) obtain r0 rest where rs: "rs = r0 # rest" by (cases rs) (auto simp: valid_set_def)
  from assms(1) r rs have "fits (ndim (estimated (hd rs))) K (error r)" "fits (ndim (estimated (hd rs))) K (destimated r)"
    by (auto simp: valid_set_def list_all_iff)
  moreover from assms(2) r have "no_nan (error r)" "no_nan (destimated r)" by (auto simp: list_all_iff)
  ultimately show "good_entry r c" using c by (rule good_entryI)
qed

lemma gci_valid:
  assumes "valid_set rs K" "list_all (\<lambda>r. no_nan (error r) \<and> no_nan (destimated r)) rs"
  shows "\<exists>st. summary_statistics (ndim (estimated (hd rs))) K rs = Inr st \<and>
           generateConfidenceIntervals module_globals rs K =
             (Header # coverage_table (coverage_of (expected_counts (ndim (estimated (hd rs))) K rs))
                @ fst (summary_lines (ndim (estimated (hd rs))) K st),
              Inr (coverage_of (expected_counts (ndim (estimated (hd rs))) K rs)))"
proof -
  from assms(1) obtain r0 rest where rs: "rs = r0 # rest" by (cases rs) (auto simp: valid_set_def)
  let ?d = "ndim (estimated (hd rs))"
  from assms(1) rs have k: "?d = 0 \<or> 1 \<le> K" by (auto simp: valid_set_def)
  from summary_statistics_valid[OF assms(1)] obtain st where st: "summary_statistics ?d K rs = Inr st" by blast
  have al: "alpha_loop module_globals ?d K rs alpha_values = Inr (expected_counts ?d K rs)"
    unfolding expected_counts_def by (rule alpha_loop_good[OF valid_good[OF assms] load_scipy])
  obtain printed where p: "summary_lines ?d K st = (printed, Inr ())"
    using summary_lines_valid[OF k, of st] by (cases "summary_lines ?d K st") auto
  have "generateConfidenceIntervals module_globals rs K =
             (Header # coverage_table (coverage_of (expected_counts ?d K rs)) @ fst (summary_lines ?d K st),
              Inr (coverage_of (expected_counts ?d K rs)))"
    using al st p unfolding rs by (simp add: generateConfidenceIntervals_def load_numpy Let_def)
  with st show ?thesis by blast
qed

lemma test_entry_cong:
  "error r = error r' \<Longrightarrow> destimated r = destimated r' \<Longrightarrow> test_entry alpha r c = test_entry alpha r' c"
  by (simp add: test_entry_def split: sum.splits)

lemma readable_fits:
  assumes "fits dim' K (error r)" "fits dim' K (destimated r)" "c \<in> set (coords dim' K)"
  shows "readable r c"
  using entry_fits[OF assms(1,3)] entry_fits[OF assms(2,3)] by (auto simp: readable_def)

lemma readable_cases:
  assumes "readable r c"
  shows "nan_entry r c \<or> good_entry r c"
proof -
  from assms obtain x y where xy: "entry (error r) c = Inr x" "entry (destimated r) c = Inr y"
    by (auto simp: readable_def)
  show ?thesis using xy by (cases x; cases y) (auto simp: nan_entry_def good_entry_def)
qed

lemma test_entry_nan:
  assumes "readable r c" "nan_entry r c"
  shows "test_entry alpha r c = IsNan"
proof -
  from assms(1) obtain x y where xy: "entry (error r) c = Inr x" "entry (destimated r) c = Inr y"
    by (auto simp: readable_def)
  with assms(2) show ?thesis by (cases x; cases y) (auto simp: nan_entry_def test_entry_def)
qed

lemma count_coords_nan:
  assumes "\<forall>c\<in>set cs. readable r c" "\<exists>c\<in>set cs. nan_entry r c"
  shows "count_coords alpha dim' idx r cs (a, b) = Inl (nan_report dim' idx r, StrRaise ''isnan'')"
  using assms
proof (induction cs arbitrary: a b)
  case Nil
  then show ?case by simp
next
  case (Cons c cs)
  then have rc: "readable r c" by simp
  show ?case
  proof (cases "nan_entry r c")
    case True
    from test_entry_nan[OF rc True] show ?thesis by simp
  next
    case False
    with readable_cases[OF rc] have g: "good_entry r c" by blast
    from False Cons.prems have rest: "\<forall>c\<in>set cs. readable r c" "\<exists>c\<in>set cs. nan_entry r c" by auto
    from test_entry_good[OF g, of alpha] show ?thesis
      using Cons.IH[OF rest] by auto
  qed
qed

lemma count_replicates_nan:
  assumes "\<forall>r\<in>set (pre @ [r]). \<forall>c\<in>set (coords dim' K). readable r c"
    and "\<forall>p\<in>set pre. \<not> nan_in_scope dim' K p"
    and "nan_in_scope dim' K r"
  shows "count_replicates alpha dim' K idx (pre @ r # post) ab =
           Inl (nan_report dim' (idx + length pre) r, StrRaise ''isnan'')"
  using assms(1,2)
proof (induction pre arbitrary: idx ab)
  case Nil
  obtain a b where ab: "ab = (a, b)" by (cases ab)
  from Nil assms(3) show ?case unfolding ab
    by (simp add: count_coords_nan nan_in_scope_def list_ex_iff)
next
  case (Cons p pre)
  obtain a b where ab: "ab = (a, b)" by (cases ab)
  from Cons.prems have rd: "\<forall>c\<in>set (coords dim' K). readable p c"
    and nn: "\<not> nan_in_scope dim' K p" by auto
  have "\<forall>c\<in>set (coords dim' K). good_entry p c"
  proof
    fix c assume c: "c \<in> set (coords dim' K)"
    with rd have "readable p c" by blast
    from readable_cases[OF this] nn c show "good_entry p c"
      by (auto simp: nan_in_scope_def list_ex_iff)
  qed
  from count_coords_good[OF this, of alpha dim' idx a b]
  obtain ab' where "count_coords alpha dim' idx p (coords dim' K) ab = Inr ab'" unfolding ab by blast
  moreover have "count_replicates alpha dim' K (Suc idx) (pre @ r # post) ab' =
           Inl (nan_report dim' (Suc idx + length pre) r, StrRaise ''isnan'')"
    using Cons.prems by (intro Cons.IH) auto
  ultimately show ?case by simp
qed

lemma gci_nan:
  assumes "valid_set replicates K"
    and "list_ex (nan_in_scope (ndim (estimated (hd replicates))) K) replicates"
  shows "first_nan (ndim (estimated (hd replicates))) K replicates < length replicates
     \<and> generateConfidenceIntervals module_globals replicates K =
         (Header # nan_report (ndim (estimated (hd replicates)))
                     (first_nan (ndim (estimated (hd replicates))) K replicates)
                     (replicates ! first_nan (ndim (estimated (hd replicates))) K replicates),
          Inl (StrRaise ''isnan''))"
proof -
  let ?d = "ndim (estimated (hd replicates))"
  let ?P = "\<lambda>r. \<not> nan_in_scope ?d K r"
  let ?pre = "takeWhile ?P replicates"
  let ?i = "first_nan ?d K replicates"
  from assms(2) have ex: "\<exists>r\<in>set replicates. \<not> ?P r" by (simp add: list_ex_iff)
  have dw: "dropWhile ?P replicates \<noteq> []" using ex by simp
  then obtain r post where rp: "dropWhile ?P replicates = r # post" by (cases "dropWhile ?P replicates") auto
  have split: "replicates = ?pre @ r # post" using rp by (metis takeWhile_dropWhile_id)
  have r: "nan_in_scope ?d K r" using rp by (metis hd_dropWhile dw list.sel(1))
  have ri: "replicates ! ?i = r"
    unfolding first_nan_def using split by (metis nth_append_length)
  have "length replicates = length ?pre + Suc (length post)"
    using arg_cong[OF split, of length] by simp
  then have i: "?i < length replicates" by (simp add: first_nan_def)
  from assms(1) obtain r0 rest where rs: "replicates = r0 # rest"
    by (cases replicates) (auto simp: valid_set_def)
  have rd: "\<forall>x\<in>set (?pre @ [r]). \<forall>c\<in>set (coords ?d K). readable x c"
  proof (intro ballI)
    fix x c assume x: "x \<in> set (?pre @ [r])" and c: "c \<in> set (coords ?d K)"
    have "set replicates = set ?pre \<union> insert r (set post)"
      using arg_cong[OF split, of set] by simp
    with x have "x \<in> set replicates" by auto
    with assms(1) rs have "fits ?d K (error x)" "fits ?d K (destimated x)"
      by (auto simp: valid_set_def list_all_iff)
    then show "readable x c" using c by (rule readable_fits)
  qed
  have np: "\<forall>p\<in>set ?pre. \<not> nan_in_scope ?d K p" by (auto dest: set_takeWhileD)
  obtain a0 als where al: "alpha_values = a0 # als"
    using alpha_values_length by (cases alpha_values) (auto simp: nalpha_def)
  have "count_replicates a0 ?d K 0 replicates (1, 1) = Inl (nan_report ?d ?i r, StrRaise ''isnan'')"
    using count_replicates_nan[OF rd np r, of a0 0 post "(1, 1)"] split
    by (simp add: first_nan_def)
  then have "generateConfidenceIntervals module_globals replicates K =
         (Header # nan_report ?d ?i r, Inl (StrRaise ''isnan''))"
    unfolding rs by (simp add: generateConfidenceIntervals_def load_numpy al Let_def)
  with i ri show ?thesis by simp
qed

lemma coords_higher: "dim' \<notin> {0, 1, 2} \<Longrightarrow> coords dim' K = []"
  by (simp add: coords_def)

lemma count_replicates_no_coords:
  assumes "coords dim' K = []"
  shows "count_replicates alpha dim' K idx rs ab = Inr ab"
proof (induction rs arbitrary: idx)
  case Nil
  then show ?case by simp
next
  case (Cons r rs)
  obtain a b where ab: "ab = (a, b)" by (cases ab)
  show ?case using Cons by (simp add: assms ab)
qed

lemma alpha_loop_no_coords:
  assumes "coords dim' K = []" "load_global g ''scipy'' = Inr ()"
  shows "alpha_loop g dim' K rs als = Inr (map (\<lambda>alpha. (1, 1)) als)"
  by (induction als) (simp_all add: count_replicates_no_coords[OF assms(1)] assms(2))

lemma gci_higher:
  assumes "replicates \<noteq> []" "ndim (estimated (hd replicates)) \<notin> {0, 1, 2}"
  shows "generateConfidenceIntervals module_globals replicates K =
           (Header # coverage_table (coverage_of (map (\<lambda>alpha. (1, 1)) alpha_values)),
            Inl (UnboundLocalError ''vals''))"
proof -
  from assms(1) obtain r0 rest where rs: "replicates = r0 # rest" by (cases replicates) auto
  from assms(2) have d: "3 \<le> ndim (estimated (hd replicates))" by auto
  have al: "alpha_loop module_globals (ndim (estimated (hd replicates))) K replicates alpha_values
            = Inr (map (\<lambda>alpha. (1, 1)) alpha_values)"
    by (rule alpha_loop_no_coords[OF coords_higher[OF assms(2)] load_scipy])
  show ?thesis using al d unfolding rs
    by (simp add: generateConfidenceIntervals_def load_numpy Let_def summary_statistics_def)
qed

section \<open>Coverage over the alpha grid\<close>

text \<open>
  Claim C8. For a ReplicateSet of the data model with no NaN among the errors and
  every \<^verbatim>\<open>destimated\<close> entry at least 0, generateConfidenceIntervals returns, the
  returned alpha grid is strictly ascending, and the observed coverage does not
  decrease along it: \<open>Pobs[m] \<le> Pobs[m']\<close> whenever \<open>m < m'\<close>.
\<close>

theorem Pobs_monotone:
  assumes "valid_set replicates K"
    and "list_all (\<lambda>r. no_nan (error r) \<and> nonneg (destimated r)) replicates"
  shows "\<exists>printed cov.
           generateConfidenceIntervals module_globals replicates K = (printed, Inr cov)
           \<and> alphas cov = alpha_values \<and> length (Pobs cov) = nalpha
           \<and> (\<forall>m m'. m < m' \<and> m' < nalpha \<longrightarrow>
                  alphas cov ! m < alphas cov ! m' \<and> Pobs cov ! m \<le> Pobs cov ! m')"
proof -
  let ?d = "ndim (estimated (hd replicates))"
  let ?T = "length replicates * length (coords ?d K)"
  let ?cov = "coverage_of (expected_counts ?d K replicates)"
  from assms(2) have clean: "list_all (\<lambda>r. no_nan (error r) \<and> no_nan (destimated r)) replicates"
    by (auto simp: list_all_iff nonneg_no_nan)
  from gci_valid[OF assms(1) clean] obtain printed where
    g: "generateConfidenceIntervals module_globals replicates K = (printed, Inr ?cov)" by blast
  have good: "\<forall>r\<in>set replicates. \<forall>c\<in>set (coords ?d K). good_entry r c \<and> nonneg_entry r c"
  proof (intro ballI conjI)
    fix r c assume r: "r \<in> set replicates" and c: "c \<in> set (coords ?d K)"
    from valid_good[OF assms(1) clean] r c show "good_entry r c" by blast
    from assms(1) r have "fits ?d K (destimated r)"
      by (cases replicates) (auto simp: valid_set_def list_all_iff)
    moreover from assms(2) r have "nonneg (destimated r)" by (auto simp: list_all_iff)
    ultimately show "nonneg_entry r c" using c by (rule nonneg_entryI)
  qed
  have P: "Pobs ?cov ! m = (1 + real (total_hits (alpha_values ! m) ?d K replicates)) / (2 + real ?T)"
    if "m < nalpha" for m
  proof -
    have le: "total_hits (alpha_values ! m) ?d K replicates \<le> ?T" by (rule total_hits_le)
    from that have m: "m < length alpha_values" by (simp add: alpha_values_length)
    show ?thesis using m le
      by (simp add: coverage_of_def expected_counts_def of_nat_diff)
  qed
  have mono: "alphas ?cov ! m < alphas ?cov ! m' \<and> Pobs ?cov ! m \<le> Pobs ?cov ! m'"
    if "m < m'" "m' < nalpha" for m m'
  proof
    from that show "alphas ?cov ! m < alphas ?cov ! m'"
      by (simp add: coverage_of_def alpha_values_def nalpha_def min_alpha_def max_alpha_def)
    from that have "alpha_values ! m \<le> alpha_values ! m'" by (simp add: alpha_values_mono)
    from total_hits_mono[OF good this]
    have "1 + real (total_hits (alpha_values ! m) ?d K replicates)
          \<le> 1 + real (total_hits (alpha_values ! m') ?d K replicates)" by simp
    then have "(1 + real (total_hits (alpha_values ! m) ?d K replicates)) / (2 + real ?T)
          \<le> (1 + real (total_hits (alpha_values ! m') ?d K replicates)) / (2 + real ?T)"
      by (rule divide_right_mono) simp
    with that show "Pobs ?cov ! m \<le> Pobs ?cov ! m'" by (simp add: P)
  qed
  have "alphas ?cov = alpha_values" "length (Pobs ?cov) = nalpha"
    by (simp_all add: coverage_of_def expected_counts_def alpha_values_length)
  with g mono show ?thesis by blast
qed

theorem Pobs_monotone_witness:
  "\<exists>printed cov.
     generateConfidenceIntervals module_globals
       [\<lparr>estimated = Scalar (Fl 1), error = Scalar (Fl (1/2)), destimated = Scalar (Fl 1)\<rparr>,
        \<lparr>estimated = Scalar (Fl 1), error = Scalar (Fl (-1/2)), destimated = Scalar (Fl 1)\<rparr>,
        \<lparr>estimated = Scalar (Fl 1), error = Scalar (Fl (3/2)), destimated = Scalar (Fl 1)\<rparr>] 1
       = (printed, Inr cov)
     \<and> Pobs cov ! 3 \<le> Pobs cov ! 19"
proof -
  let ?rs = "[\<lparr>estimated = Scalar (Fl 1), error = Scalar (Fl (1/2)), destimated = Scalar (Fl 1)\<rparr>,
        \<lparr>estimated = Scalar (Fl 1), error = Scalar (Fl (-1/2)), destimated = Scalar (Fl 1)\<rparr>,
        \<lparr>estimated = Scalar (Fl 1), error = Scalar (Fl (3/2)), destimated = Scalar (Fl 1)\<rparr>]"
  have v: "valid_set ?rs 1" by (simp add: valid_set_def fits_def)
  have c: "list_all (\<lambda>r. no_nan (error r) \<and> nonneg (destimated r)) ?rs"
    by (simp add: no_nan_def nonneg_def)
  from Pobs_monotone[OF v c] obtain printed cov where
    "generateConfidenceIntervals module_globals ?rs 1 = (printed, Inr cov)"
    "\<forall>m m'. m < m' \<and> m' < nalpha \<longrightarrow> alphas cov ! m < alphas cov ! m' \<and> Pobs cov ! m \<le> Pobs cov ! m'"
    by blast
  moreover have "(3::nat) < 19 \<and> 19 < nalpha" by (simp add: nalpha_def)
  ultimately show ?thesis by blast
qed

text \<open>
  Claim C2, as amended. For a ReplicateSet of the data model with no NaN among the
  errors and the \<^verbatim>\<open>destimated\<close> entries, the returned value is the six arrays of
  line 349 and nothing else: the alpha grid, the observed coverage, its lower and upper
  bound, its standard error and the normal-theory coverage, all determined by the
  counters. The five summary arrays are computed and go to the printed lines only.
\<close>

theorem six_arrays_returned:
  assumes "valid_set replicates K"
    and "list_all (\<lambda>r. no_nan (error r) \<and> no_nan (destimated r)) replicates"
  shows "\<exists>st. summary_statistics (ndim (estimated (hd replicates))) K replicates = Inr st
           \<and> generateConfidenceIntervals module_globals replicates K =
               (Header
                  # coverage_table (coverage_of (expected_counts (ndim (estimated (hd replicates))) K replicates))
                  @ fst (summary_lines (ndim (estimated (hd replicates))) K st),
                Inr (coverage_of (expected_counts (ndim (estimated (hd replicates))) K replicates)))"
  using assms by (rule gci_valid)

theorem six_arrays_returned_witness:
  "\<exists>st. summary_statistics 0 1
           [\<lparr>estimated = Scalar (Fl 1), error = Scalar (Fl 1), destimated = Scalar (Fl 1)\<rparr>] = Inr st
     \<and> generateConfidenceIntervals module_globals
         [\<lparr>estimated = Scalar (Fl 1), error = Scalar (Fl 1), destimated = Scalar (Fl 1)\<rparr>] 1 =
         (Header
            # coverage_table (coverage_of (expected_counts 0 1
                [\<lparr>estimated = Scalar (Fl 1), error = Scalar (Fl 1), destimated = Scalar (Fl 1)\<rparr>]))
            @ fst (summary_lines 0 1 st),
          Inr (coverage_of (expected_counts 0 1
                [\<lparr>estimated = Scalar (Fl 1), error = Scalar (Fl 1), destimated = Scalar (Fl 1)\<rparr>])))"
proof -
  let ?rs = "[\<lparr>estimated = Scalar (Fl 1), error = Scalar (Fl 1), destimated = Scalar (Fl 1)\<rparr>]"
  have v: "valid_set ?rs 1" by (simp add: valid_set_def fits_def)
  have c: "list_all (\<lambda>r. no_nan (error r) \<and> no_nan (destimated r)) ?rs"
    by (simp add: no_nan_def)
  from six_arrays_returned[OF v c] show ?thesis by simp
qed

text \<open>
  Claim C2 as stated fails: two ReplicateSets that differ in their estimates only have
  different summary statistics (the average estimate is 1 for the one and 2 for the
  other) and the same returned value, so the returned value does not hold the summary.
\<close>

theorem summary_not_returned:
  "snd (generateConfidenceIntervals module_globals
          [\<lparr>estimated = Scalar (Fl 1), error = Scalar (Fl 1), destimated = Scalar (Fl 1)\<rparr>] 1)
   = snd (generateConfidenceIntervals module_globals
          [\<lparr>estimated = Scalar (Fl 2), error = Scalar (Fl 1), destimated = Scalar (Fl 1)\<rparr>] 1)
   \<and> \<not> isl (snd (generateConfidenceIntervals module_globals
          [\<lparr>estimated = Scalar (Fl 1), error = Scalar (Fl 1), destimated = Scalar (Fl 1)\<rparr>] 1))
   \<and> summary_statistics 0 1
          [\<lparr>estimated = Scalar (Fl 1), error = Scalar (Fl 1), destimated = Scalar (Fl 1)\<rparr>]
       = Inr \<lparr>aveval = Scalar (Fl 1), bias = Scalar (Fl 1), rms_error = Scalar (Fl 1),
              standarddev = Scalar (Fl 0), ave_std = Scalar (Fl 1)\<rparr>
   \<and> summary_statistics 0 1
          [\<lparr>estimated = Scalar (Fl 2), error = Scalar (Fl 1), destimated = Scalar (Fl 1)\<rparr>]
       = Inr \<lparr>aveval = Scalar (Fl 2), bias = Scalar (Fl 1), rms_error = Scalar (Fl 1),
              standarddev = Scalar (Fl 0), ave_std = Scalar (Fl 1)\<rparr>"
proof -
  let ?A = "[\<lparr>estimated = Scalar (Fl 1), error = Scalar (Fl 1), destimated = Scalar (Fl 1)\<rparr>]"
  let ?B = "[\<lparr>estimated = Scalar (Fl 2), error = Scalar (Fl 1), destimated = Scalar (Fl 1)\<rparr>]"
  have vA: "valid_set ?A 1" and vB: "valid_set ?B 1" by (simp_all add: valid_set_def fits_def)
  have cA: "list_all (\<lambda>r. no_nan (error r) \<and> no_nan (destimated r)) ?A"
    and cB: "list_all (\<lambda>r. no_nan (error r) \<and> no_nan (destimated r)) ?B"
    by (simp_all add: no_nan_def)
  have "test_entry alpha (hd ?A) c = test_entry alpha (hd ?B) c" for alpha c
    by (rule test_entry_cong) simp_all
  then have same: "expected_counts 0 1 ?A = expected_counts 0 1 ?B"
    by (simp add: expected_counts_def total_hits_def hits_def)
  from gci_valid[OF vA cA] have A: "snd (generateConfidenceIntervals module_globals ?A 1)
      = Inr (coverage_of (expected_counts 0 1 ?A))" by auto
  from gci_valid[OF vB cB] have B: "snd (generateConfidenceIntervals module_globals ?B 1)
      = Inr (coverage_of (expected_counts 0 1 ?B))" by auto
  have sA: "summary_statistics 0 1 ?A
       = Inr \<lparr>aveval = Scalar (Fl 1), bias = Scalar (Fl 1), rms_error = Scalar (Fl 1),
              standarddev = Scalar (Fl 0), ave_std = Scalar (Fl 1)\<rparr>"
    by (simp add: summary_statistics_def fill_row_def fits_def along_axis0_def average_def
        rms_def std_def fsum_def fadd_def fsub_def fmul_def)
  have sB: "summary_statistics 0 1 ?B
       = Inr \<lparr>aveval = Scalar (Fl 2), bias = Scalar (Fl 1), rms_error = Scalar (Fl 1),
              standarddev = Scalar (Fl 0), ave_std = Scalar (Fl 1)\<rparr>"
    by (simp add: summary_statistics_def fill_row_def fits_def along_axis0_def average_def
        rms_def std_def fsum_def fadd_def fsub_def fmul_def)
  show ?thesis using A B same sA sB by simp
qed

text \<open>
  Claim C3, as amended. For a ReplicateSet of the data model in which a NaN enters the
  coverage test, generateConfidenceIntervals stops in the first pass over the
  replicates, at the first replicate that holds such a NaN: it has printed the header,
  that replicate's index and its whole \<^verbatim>\<open>error\<close> and \<^verbatim>\<open>destimated\<close> arrays, it raises
  the string \<^verbatim>\<open>"isnan"\<close>, and it returns no coverage result. The coordinate is not
  reported.
\<close>

theorem nan_stops_coverage:
  assumes "valid_set replicates K"
    and "list_ex (nan_in_scope (ndim (estimated (hd replicates))) K) replicates"
  shows "first_nan (ndim (estimated (hd replicates))) K replicates < length replicates
     \<and> generateConfidenceIntervals module_globals replicates K =
         (Header # nan_report (ndim (estimated (hd replicates)))
                     (first_nan (ndim (estimated (hd replicates))) K replicates)
                     (replicates ! first_nan (ndim (estimated (hd replicates))) K replicates),
          Inl (StrRaise ''isnan''))"
  using assms by (rule gci_nan)

theorem nan_stops_coverage_witness:
  "first_nan 1 2
     [\<lparr>estimated = Vec [Fl 0, Fl 0], error = Vec [Fl 1, Fl 2], destimated = Vec [Fl 1, Fl 1]\<rparr>,
      \<lparr>estimated = Vec [Fl 0, Fl 0], error = Vec [Fl 1, NaN], destimated = Vec [Fl 1, Fl 1]\<rparr>] = 1
   \<and> generateConfidenceIntervals module_globals
     [\<lparr>estimated = Vec [Fl 0, Fl 0], error = Vec [Fl 1, Fl 2], destimated = Vec [Fl 1, Fl 1]\<rparr>,
      \<lparr>estimated = Vec [Fl 0, Fl 0], error = Vec [Fl 1, NaN], destimated = Vec [Fl 1, Fl 1]\<rparr>] 2
     = ([Header, ReplicateLine 1, Label ''error'', Dump (Vec [Fl 1, NaN]),
         Label ''destimated'', Dump (Vec [Fl 1, Fl 1])],
        Inl (StrRaise ''isnan''))"
proof -
  let ?rs = "[\<lparr>estimated = Vec [Fl 0, Fl 0], error = Vec [Fl 1, Fl 2], destimated = Vec [Fl 1, Fl 1]\<rparr>,
      \<lparr>estimated = Vec [Fl 0, Fl 0], error = Vec [Fl 1, NaN], destimated = Vec [Fl 1, Fl 1]\<rparr>]"
  have two: "[0..<2] = [0, 1::nat]" by (simp add: upt_rec)
  have v: "valid_set ?rs 2" by (simp add: valid_set_def fits_def)
  have n: "list_ex (nan_in_scope (ndim (estimated (hd ?rs))) 2) ?rs"
    by (simp add: nan_in_scope_def nan_entry_def coords_def two)
  have f: "first_nan 1 2 ?rs = 1"
    by (simp add: first_nan_def nan_in_scope_def nan_entry_def coords_def two)
  from nan_stops_coverage[OF v n] f show ?thesis by (simp add: nan_report_def)
qed

text \<open>
  Claim C3 as stated fails: the error raised carries neither a replicate index nor a
  coordinate (it is the same for a NaN at coordinate 0 of replicate 0 and for one at
  coordinate 1 of replicate 1), and what is printed before it names the replicate and
  shows the two arrays, not the coordinate.
\<close>

theorem nan_error_names_no_coordinate:
  "snd (generateConfidenceIntervals module_globals
     [\<lparr>estimated = Vec [Fl 0, Fl 0], error = Vec [NaN, Fl 1], destimated = Vec [Fl 1, Fl 1]\<rparr>] 2)
     = Inl (StrRaise ''isnan'')
   \<and> generateConfidenceIntervals module_globals
     [\<lparr>estimated = Vec [Fl 0, Fl 0], error = Vec [Fl 1, Fl 2], destimated = Vec [Fl 1, Fl 1]\<rparr>,
      \<lparr>estimated = Vec [Fl 0, Fl 0], error = Vec [Fl 1, Fl 1], destimated = Vec [Fl 1, NaN]\<rparr>] 2
     = ([Header, ReplicateLine 1, Label ''error'', Dump (Vec [Fl 1, Fl 1]),
         Label ''destimated'', Dump (Vec [Fl 1, NaN])],
        Inl (StrRaise ''isnan''))"
proof -
  let ?A = "[\<lparr>estimated = Vec [Fl 0, Fl 0], error = Vec [NaN, Fl 1], destimated = Vec [Fl 1, Fl 1]\<rparr>]"
  let ?B = "[\<lparr>estimated = Vec [Fl 0, Fl 0], error = Vec [Fl 1, Fl 2], destimated = Vec [Fl 1, Fl 1]\<rparr>,
      \<lparr>estimated = Vec [Fl 0, Fl 0], error = Vec [Fl 1, Fl 1], destimated = Vec [Fl 1, NaN]\<rparr>]"
  have vA: "valid_set ?A 2" and vB: "valid_set ?B 2" by (simp_all add: valid_set_def fits_def)
  have nA: "list_ex (nan_in_scope (ndim (estimated (hd ?A))) 2) ?A"
    by (simp add: nan_in_scope_def nan_entry_def coords_def upt_2)
  have nB: "list_ex (nan_in_scope (ndim (estimated (hd ?B))) 2) ?B"
    by (simp add: nan_in_scope_def nan_entry_def coords_def upt_2)
  have fB: "first_nan 1 2 ?B = 1"
    by (simp add: first_nan_def nan_in_scope_def nan_entry_def coords_def upt_2)
  from gci_nan[OF vA nA] gci_nan[OF vB nB] fB show ?thesis by (simp add: nan_report_def)
qed

text \<open>
  Claim C5, as amended. For a ReplicateSet with at least one replicate whose
  dimensionality is not 0, 1 or 2, generateConfidenceIntervals returns nothing: no
  coordinate is counted, so the coverage table is printed from the bare counters
  \<open>a = b = 1\<close> at every alpha, and then line 311 reads the unbound local \<^verbatim>\<open>vals\<close>.
  The module has no shape check and no ShapeError.
\<close>

theorem three_axes_unbound_vals:
  assumes "replicates \<noteq> []" "ndim (estimated (hd replicates)) \<notin> {0, 1, 2}"
  shows "generateConfidenceIntervals module_globals replicates K =
           (Header # coverage_table (coverage_of (map (\<lambda>alpha. (1, 1)) alpha_values)),
            Inl (UnboundLocalError ''vals''))"
  using assms by (rule gci_higher)

theorem three_axes_unbound_vals_witness:
  "generateConfidenceIntervals module_globals
     [\<lparr>estimated = Higher 1 1 2 [] [Fl 1, Fl 2], error = Higher 1 1 2 [] [Fl 0, Fl 0],
       destimated = Higher 1 1 2 [] [Fl 1, Fl 1]\<rparr>] 2 =
     (Header # coverage_table (coverage_of (map (\<lambda>alpha. (1, 1)) alpha_values)),
      Inl (UnboundLocalError ''vals''))"
  by (rule three_axes_unbound_vals) simp_all

text \<open>
  Claim C5 as stated fails: on a ReplicateSet of three axes the coverage analysis ends
  with UnboundLocalError after printing its header and the 41 lines of the coverage
  table; OrderReplicates ends with the NameError it ends with on every input, and
  once \<^verbatim>\<open>np\<close> is bound it returns an array of zeros instead of failing.
\<close>

theorem three_axes_no_shape_error:
  "snd (generateConfidenceIntervals module_globals
     [\<lparr>estimated = Higher 2 1 1 [] [Fl 1, Fl 2], error = Higher 2 1 1 [] [Fl 0, Fl 0],
       destimated = Higher 2 1 1 [] [Fl 1, Fl 1]\<rparr>] 1) = Inl (UnboundLocalError ''vals'')
   \<and> length (fst (generateConfidenceIntervals module_globals
     [\<lparr>estimated = Higher 2 1 1 [] [Fl 1, Fl 2], error = Higher 2 1 1 [] [Fl 0, Fl 0],
       destimated = Higher 2 1 1 [] [Fl 1, Fl 1]\<rparr>] 1)) = 42
   \<and> OrderReplicates module_globals
     [\<lparr>estimated = Higher 2 1 1 [] [Fl 1, Fl 2], error = Higher 2 1 1 [] [Fl 0, Fl 0],
       destimated = Higher 2 1 1 [] [Fl 1, Fl 1]\<rparr>] 1 = Inl (NameError ''np'')
   \<and> OrderReplicates (''np'' # module_globals)
     [\<lparr>estimated = Higher 2 1 1 [] [Fl 1, Fl 2], error = Higher 2 1 1 [] [Fl 0, Fl 0],
       destimated = Higher 2 1 1 [] [Fl 1, Fl 1]\<rparr>] 1 = Inr [Higher 2 1 1 [] [Fl 0, Fl 0]]"
proof -
  let ?rs = "[\<lparr>estimated = Higher 2 1 1 [] [Fl 1, Fl 2], error = Higher 2 1 1 [] [Fl 0, Fl 0],
       destimated = Higher 2 1 1 [] [Fl 1, Fl 1]\<rparr>]"
  have g: "generateConfidenceIntervals module_globals ?rs 1 =
           (Header # coverage_table (coverage_of (map (\<lambda>alpha. (1, 1)) alpha_values)),
            Inl (UnboundLocalError ''vals''))"
    by (rule gci_higher) simp_all
  have o: "OrderReplicates module_globals ?rs 1 = Inl (NameError ''np'')"
    by (simp add: OrderReplicates_def load_global_def module_globals_def py_builtins_def)
  have o': "OrderReplicates (''np'' # module_globals) ?rs 1 = Inr [Higher 2 1 1 [] [Fl 0, Fl 0]]"
    by (simp add: OrderReplicates_def load_global_def add_mask_def binop_nd_def sort_slices_def fadd_def)
  show ?thesis using g o o' by (simp add: coverage_table_def nalpha_def)
qed

text \<open>
  Claim C6, where the code departs from it. For dimensionality 2 the loops of lines
  304 and 305 run over the strict lower triangle, but their body assigns the whole
  matrix, so with \<open>K = 2\<close> every entry of the summary arrays is computed from the
  data, the diagonal and the upper triangle included.
\<close>

theorem summary_fills_whole_matrix:
  "summary_statistics 2 2
     [\<lparr>estimated = Mat [[Fl 1, Fl 2], [Fl 3, Fl 4]],
       error = Mat [[Fl 0, Fl 1], [Fl (- 1), Fl 0]],
       destimated = Mat [[Fl 1, Fl 1], [Fl 1, Fl 1]]\<rparr>]
   = Inr \<lparr>aveval = Mat [[Fl 1, Fl 2], [Fl 3, Fl 4]],
          bias = Mat [[Fl 0, Fl 1], [Fl (- 1), Fl 0]],
          rms_error = Mat [[Fl 0, Fl 1], [Fl 1, Fl 0]],
          standarddev = Mat [[Fl 0, Fl 0], [Fl 0, Fl 0]],
          ave_std = Mat [[Fl 1, Fl 1], [Fl 1, Fl 1]]\<rparr>"
  by (simp add: summary_statistics_def fill_row_def fits_def along_axis0_def column2_def upt_2
      average_def rms_def std_def fsum_def fadd_def fsub_def fmul_def)

end
